theory Spec2Isabelle
  imports Complex_Main "HOL-Library.Word"
begin

unbundle bit_operations_syntax

section \<open>Cache statistics (vk\_cache\_utils.h, class CacheStats)\<close>

text \<open>
  \<^verbatim>\<open>CacheStats\<close> holds two \<^verbatim>\<open>uint64_t\<close> counters. They are modelled as 64-bit
  words, so \<^verbatim>\<open>++\<close> and \<^verbatim>\<open>+=\<close> wrap around as unsigned C++ arithmetic does.
\<close>

record CacheStats =
  mHitCount :: "64 word"
  mMissCount :: "64 word"

definition hit :: "CacheStats \<Rightarrow> CacheStats" where
  "hit s = s\<lparr>mHitCount := mHitCount s + 1\<rparr>"

definition miss :: "CacheStats \<Rightarrow> CacheStats" where
  "miss s = s\<lparr>mMissCount := mMissCount s + 1\<rparr>"

text \<open>
  \<^verbatim>\<open>accumulate(const CacheStats &stats)\<close>: the receiver is the first argument, the
  (const) source the second; the source is not returned because it is not modified.
\<close>

definition accumulate :: "CacheStats \<Rightarrow> CacheStats \<Rightarrow> CacheStats" where
  "accumulate s stats =
     s\<lparr>mHitCount := mHitCount s + mHitCount stats,
       mMissCount := mMissCount s + mMissCount stats\<rparr>"

definition getHitCount :: "CacheStats \<Rightarrow> 64 word" where
  "getHitCount s = mHitCount s"

definition getMissCount :: "CacheStats \<Rightarrow> 64 word" where
  "getMissCount s = mMissCount s"

definition reset :: "CacheStats \<Rightarrow> CacheStats" where
  "reset s = s\<lparr>mHitCount := 0, mMissCount := 0\<rparr>"

text \<open>
  \<^verbatim>\<open>getHitRatio\<close> returns a \<^verbatim>\<open>double\<close>. A \<^verbatim>\<open>double\<close> (IEEE 754 binary64) is
  modelled as the real number it denotes, and every operation that produces one rounds
  to the nearest representable value, ties to the even significand: a value \<open>x\<close> with
  \<open>2^e \<le> |x| < 2^(e+1)\<close> is a multiple of \<open>2^(e-52)\<close> (a 53-bit significand).
  \<open>roundToEven\<close> rounds a real to the nearest integer, ties to even, and
  \<open>roundToDouble\<close> rounds a real to the nearest \<^verbatim>\<open>double\<close>. Overflow and subnormal
  numbers are not modelled: the values rounded here are 0, integers below \<open>2^64\<close> and
  quotients of two such values, which lie between \<open>2^-64\<close> and \<open>2^64\<close>.
\<close>

definition roundToEven :: "real \<Rightarrow> int" where
  "roundToEven x =
     (let f = \<lfloor>x\<rfloor>; r = x - of_int f
      in if r < 1 / 2 then f else if 1 / 2 < r then f + 1 else if even f then f else f + 1)"

definition roundToDouble :: "real \<Rightarrow> real" where
  "roundToDouble x =
     (if x = 0 then 0
      else let e = \<lfloor>log 2 \<bar>x\<bar>\<rfloor>; ulp = 2 powr of_int (e - 52)
           in sgn x * (of_int (roundToEven (\<bar>x\<bar> / ulp)) * ulp))"

text \<open>
  \<^verbatim>\<open>static_cast<double>\<close> of a \<^verbatim>\<open>uint64_t\<close> (also the implicit conversion of the
  divisor), and the division of two \<^verbatim>\<open>double\<close>s, where a division by zero is made
  visible as \<open>None\<close>.
\<close>

definition double_of_uint64 :: "64 word \<Rightarrow> real" where
  "double_of_uint64 w = roundToDouble (real (unat w))"

definition double_div :: "real \<Rightarrow> real \<Rightarrow> real option" where
  "double_div a b = (if b = 0 then None else Some (roundToDouble (a / b)))"

text \<open>
  \<^verbatim>\<open>getHitRatio\<close>: the sum \<^verbatim>\<open>mHitCount + mMissCount\<close> is computed in \<^verbatim>\<open>uint64_t\<close>,
  in the test and in the divisor alike, and wraps.
\<close>

definition getHitRatio :: "CacheStats \<Rightarrow> real option" where
  "getHitRatio s =
     (if mHitCount s + mMissCount s = 0 then Some 0
      else double_div (double_of_uint64 (mHitCount s))
             (double_of_uint64 (mHitCount s + mMissCount s)))"

text \<open>The enumeration of cache kinds, the template argument of \<^verbatim>\<open>HasCacheStats\<close>.\<close>

datatype VulkanCacheType =
    CompatibleRenderPass
  | RenderPassWithOps
  | GraphicsPipeline
  | PipelineLayout
  | Sampler
  | SamplerYcbcrConversion
  | DescriptorSetLayout
  | DriverUniformsDescriptors
  | TextureDescriptors
  | UniformsAndXfbDescriptors
  | ShaderBuffersDescriptors
  | Framebuffer

text \<open>
  \<^verbatim>\<open>HasCacheStats<CacheType>\<close>, the base class of the caches that report their counters:
  its one member is \<^verbatim>\<open>mCacheStats\<close>; the caches below extend the record.

  \<^verbatim>\<open>accumulateCacheStats(Accumulator *accum)\<close>: the accumulator is a template parameter of
  the source; here it is a state \<open>accum\<close> of any type together with its method
  \<open>accumMethod\<close> (\<^verbatim>\<open>accum->accumulateCacheStats(CacheType, mCacheStats)\<close>), and
  \<open>cacheType\<close> is the template argument of the class. The result is the accumulator
  after the call and the cache after \<^verbatim>\<open>mCacheStats.reset()\<close>.
\<close>

record HasCacheStats =
  mCacheStats :: CacheStats

definition accumulateCacheStats ::
  "(VulkanCacheType \<Rightarrow> CacheStats \<Rightarrow> 'acc \<Rightarrow> 'acc) \<Rightarrow> VulkanCacheType \<Rightarrow> 'acc
     \<Rightarrow> 'c HasCacheStats_scheme \<Rightarrow> 'acc \<times> 'c HasCacheStats_scheme" where
  "accumulateCacheStats accumMethod cacheType accum c =
     (accumMethod cacheType (mCacheStats c) accum, c\<lparr>mCacheStats := reset (mCacheStats c)\<rparr>)"

section \<open>Pipeline description and the transition cache\<close>

text \<open>
  The sizes the header asserts for the members of \<^verbatim>\<open>GraphicsPipelineDesc\<close>
  (\<^verbatim>\<open>static_assert\<close>s on each \<^verbatim>\<open>sizeof\<close>). \<^verbatim>\<open>VkViewport\<close> is the Vulkan
  structure of six 32-bit floats; \<^verbatim>\<open>PackedScissor\<close> is four \<^verbatim>\<open>uint16_t\<close> and
  \<^verbatim>\<open>PackedExtent\<close> two.
\<close>

definition kVertexInputAttributesSize :: nat where
  "kVertexInputAttributesSize = 96"

definition kRenderPassDescSize :: nat where
  "kRenderPassDescSize = 12"

definition kPackedRasterizationAndMultisampleStateSize :: nat where
  "kPackedRasterizationAndMultisampleStateSize = 32"

definition kPackedDepthStencilStateSize :: nat where
  "kPackedDepthStencilStateSize = 20"

definition kPackedInputAssemblyAndColorBlendStateSize :: nat where
  "kPackedInputAssemblyAndColorBlendStateSize = 56"

definition sizeof_VkViewport :: nat where
  "sizeof_VkViewport = 24"

definition sizeof_PackedScissor :: nat where
  "sizeof_PackedScissor = 8"

definition sizeof_PackedExtent :: nat where
  "sizeof_PackedExtent = 4"

definition kGraphicsPipelineDescSumOfSizes :: nat where
  "kGraphicsPipelineDescSumOfSizes =
     kVertexInputAttributesSize + kRenderPassDescSize
     + kPackedRasterizationAndMultisampleStateSize + kPackedDepthStencilStateSize
     + kPackedInputAssemblyAndColorBlendStateSize + sizeof_VkViewport
     + sizeof_PackedScissor + sizeof_PackedExtent"

definition kGraphicsPipelineDirtyBitBytes :: nat where
  "kGraphicsPipelineDirtyBitBytes = 4"

definition kNumGraphicsPipelineDirtyBits :: nat where
  "kNumGraphicsPipelineDirtyBits =
     kGraphicsPipelineDescSumOfSizes div kGraphicsPipelineDirtyBitBytes"

text \<open>
  \<^verbatim>\<open>kGraphicsPipelineDescSize\<close>: the header asserts
  \<^verbatim>\<open>sizeof(GraphicsPipelineDesc) == kGraphicsPipelineDescSumOfSizes\<close>.
\<close>

definition kGraphicsPipelineDescSize :: nat where
  "kGraphicsPipelineDescSize = kGraphicsPipelineDescSumOfSizes"

text \<open>
  \<^verbatim>\<open>GraphicsPipelineTransitionBits = angle::BitSet<kNumGraphicsPipelineDirtyBits>\<close>: a set
  of 63 bits, a 63-bit word. \<^verbatim>\<open>for (size_t dirtyBit : bitsA)\<close> visits the positions of
  the set bits in increasing order.
\<close>

type_synonym GraphicsPipelineTransitionBits = "63 word"

definition dirtyBitsOf :: "GraphicsPipelineTransitionBits \<Rightarrow> nat list" where
  "dirtyBitsOf b = filter (bit b) [0..<kNumGraphicsPipelineDirtyBits]"

text \<open>
  The transition code never looks at a field of \<^verbatim>\<open>GraphicsPipelineDesc\<close>: it reads the
  object through \<^verbatim>\<open>getPtr<uint32_t>()\<close>, a \<^verbatim>\<open>reinterpret_cast\<close> of \<^verbatim>\<open>this\<close>. The
  description is therefore modelled as its byte image, \<^verbatim>\<open>kGraphicsPipelineDescSize\<close>
  bytes (\<open>validDesc\<close>), and element \<open>i\<close> of the \<^verbatim>\<open>uint32_t\<close> view is built from the
  bytes \<open>4 i\<close> to \<open>4 i + 3\<close> (least significant byte first; the comparison of two such
  elements does not depend on the byte order).
\<close>

type_synonym GraphicsPipelineDesc = "8 word list"

definition validDesc :: "GraphicsPipelineDesc \<Rightarrow> bool" where
  "validDesc d = (length d = kGraphicsPipelineDescSize)"

definition uint32_of_bytes :: "8 word \<Rightarrow> 8 word \<Rightarrow> 8 word \<Rightarrow> 8 word \<Rightarrow> 32 word" where
  "uint32_of_bytes b0 b1 b2 b3 =
     ucast b0 OR push_bit 8 (ucast b1) OR push_bit 16 (ucast b2) OR push_bit 24 (ucast b3)"

definition getPtr_uint32 :: "GraphicsPipelineDesc \<Rightarrow> nat \<Rightarrow> 32 word" where
  "getPtr_uint32 d i =
     uint32_of_bytes (d ! (4 * i)) (d ! (4 * i + 1)) (d ! (4 * i + 2)) (d ! (4 * i + 3))"

text \<open>
  \<^verbatim>\<open>GraphicsPipelineTransition\<close>: \<^verbatim>\<open>desc\<close> points to the key of a pipeline-cache entry,
  which is never changed once stored, so the record holds the description itself;
  \<^verbatim>\<open>target\<close> is a \<^verbatim>\<open>PipelineHelper *\<close>, an identity of any type \<open>'p\<close>.
\<close>

record 'p GraphicsPipelineTransition =
  bits :: GraphicsPipelineTransitionBits
  desc :: GraphicsPipelineDesc
  target :: 'p

text \<open>The loop of \<^verbatim>\<open>GraphicsPipelineTransitionMatch\<close>, leaving at the first difference.\<close>

fun transitionMatchLoop :: "nat list \<Rightarrow> GraphicsPipelineDesc \<Rightarrow> GraphicsPipelineDesc \<Rightarrow> bool" where
  "transitionMatchLoop [] descA descB = True"
| "transitionMatchLoop (dirtyBit # rest) descA descB =
     (if getPtr_uint32 descA dirtyBit \<noteq> getPtr_uint32 descB dirtyBit then False
      else transitionMatchLoop rest descA descB)"

definition GraphicsPipelineTransitionMatch ::
  "GraphicsPipelineTransitionBits \<Rightarrow> GraphicsPipelineTransitionBits
     \<Rightarrow> GraphicsPipelineDesc \<Rightarrow> GraphicsPipelineDesc \<Rightarrow> bool" where
  "GraphicsPipelineTransitionMatch bitsA bitsB descA descB =
     (if bitsA \<noteq> bitsB then False
      else transitionMatchLoop (dirtyBitsOf bitsA) descA descB)"

text \<open>
  \<^verbatim>\<open>PipelineHelper\<close>: of its members only \<^verbatim>\<open>mTransitions\<close> matters to the lookup
  (\<^verbatim>\<open>mSerial\<close> and \<^verbatim>\<open>mPipeline\<close> are not read by it). \<^verbatim>\<open>findTransition\<close> returns
  \<^verbatim>\<open>true\<close> with \<^verbatim>\<open>*pipelineOut\<close> set, here \<open>Some\<close>, or \<^verbatim>\<open>false\<close>, here \<open>None\<close>.
\<close>

record 'p PipelineHelper =
  mTransitions :: "'p GraphicsPipelineTransition list"

fun findTransitionLoop ::
  "'p GraphicsPipelineTransition list \<Rightarrow> GraphicsPipelineTransitionBits \<Rightarrow> GraphicsPipelineDesc
     \<Rightarrow> 'p option" where
  "findTransitionLoop [] b d = None"
| "findTransitionLoop (transition # rest) b d =
     (if GraphicsPipelineTransitionMatch (bits transition) b (desc transition) d
      then Some (target transition)
      else findTransitionLoop rest b d)"

definition findTransition ::
  "'p PipelineHelper \<Rightarrow> GraphicsPipelineTransitionBits \<Rightarrow> GraphicsPipelineDesc \<Rightarrow> 'p option" where
  "findTransition h b d = findTransitionLoop (mTransitions h) b d"

text \<open>
  The match as the specification words it: the recorded dirty bits equal the probe's, and
  for every flagged 4-byte range the stored description and the probed one have the same
  bytes in that range. \<open>sameFlaggedBytes\<close> is the second half on its own.
\<close>

definition sameFlaggedBytes ::
  "GraphicsPipelineTransitionBits \<Rightarrow> GraphicsPipelineDesc \<Rightarrow> GraphicsPipelineDesc \<Rightarrow> bool" where
  "sameFlaggedBytes b d d' =
     (\<forall>i < kNumGraphicsPipelineDirtyBits. bit b i \<longrightarrow>
        (\<forall>k < kGraphicsPipelineDirtyBitBytes.
           d ! (kGraphicsPipelineDirtyBitBytes * i + k) = d' ! (kGraphicsPipelineDirtyBitBytes * i + k)))"

definition transitionMatchesSpec ::
  "'p GraphicsPipelineTransition \<Rightarrow> GraphicsPipelineTransitionBits \<Rightarrow> GraphicsPipelineDesc \<Rightarrow> bool" where
  "transitionMatchesSpec t b d = (bits t = b \<and> sameFlaggedBytes b (desc t) d)"

section \<open>Object caches\<close>

text \<open>
  \<^verbatim>\<open>angle::Result\<close> is \<^verbatim>\<open>Continue\<close> or \<^verbatim>\<open>Stop\<close>; a function returning it and
  writing its outputs through pointers is modelled as returning \<open>Inr\<close> of the outputs
  or \<open>Inl Stop\<close>. A failed \<^verbatim>\<open>ASSERT\<close> is the error \<open>AssertionFailure\<close>.
\<close>

datatype error = Stop | AssertionFailure

subsection \<open>DescriptorSetCache\<close>

text \<open>
  \<^verbatim>\<open>template <typename Key, VulkanCacheType CacheType> class DescriptorSetCache\<close>:
  \<^verbatim>\<open>mPayload\<close> is an \<^verbatim>\<open>angle::HashMap<Key, VkDescriptorSet>\<close>, a map; \<open>'v\<close> stands for
  the handle type \<^verbatim>\<open>VkDescriptorSet\<close>. \<^verbatim>\<open>get\<close> returns \<^verbatim>\<open>true\<close> with
  \<^verbatim>\<open>*descriptorSet\<close> set (here \<open>Some\<close>) or \<^verbatim>\<open>false\<close> (here \<open>None\<close>).
  \<^verbatim>\<open>insert\<close> is \<^verbatim>\<open>mPayload.emplace\<close>, which stores nothing when the key is present.
\<close>

record ('k, 'v) DescriptorSetCache = HasCacheStats +
  mPayload :: "'k \<rightharpoonup> 'v"

definition DescriptorSetCache_get ::
  "'k \<Rightarrow> ('k, 'v) DescriptorSetCache \<Rightarrow> 'v option \<times> ('k, 'v) DescriptorSetCache" where
  "DescriptorSetCache_get k c =
     (case DescriptorSetCache.mPayload c k of
        Some descriptorSet \<Rightarrow> (Some descriptorSet, c\<lparr>mCacheStats := hit (mCacheStats c)\<rparr>)
      | None \<Rightarrow> (None, c\<lparr>mCacheStats := miss (mCacheStats c)\<rparr>))"

definition DescriptorSetCache_insert ::
  "'k \<Rightarrow> 'v \<Rightarrow> ('k, 'v) DescriptorSetCache \<Rightarrow> ('k, 'v) DescriptorSetCache" where
  "DescriptorSetCache_insert k descriptorSet c =
     (case DescriptorSetCache.mPayload c k of
        Some _ \<Rightarrow> c
      | None \<Rightarrow> c\<lparr>DescriptorSetCache.mPayload := (DescriptorSetCache.mPayload c)(k \<mapsto> descriptorSet)\<rparr>)"

subsection \<open>GraphicsPipelineCache\<close>

text \<open>
  \<^verbatim>\<open>mPayload\<close> is a \<^verbatim>\<open>std::unordered_map<GraphicsPipelineDesc, PipelineHelper>\<close>; \<open>'d\<close>
  is the key type and \<open>'h\<close> the stored helper. \<^verbatim>\<open>getPipeline\<close> hands back pointers to
  the stored key (the key found for the probe, equal to it) and to the stored helper, here
  the pair of both. Its other arguments
  (context, shader modules, layout, render pass) are only passed on to
  \<^verbatim>\<open>insertPipeline\<close>, which the header declares and does not define: it is the parameter
  \<open>insertPipeline\<close> of the model.
\<close>

record ('d, 'h) GraphicsPipelineCache = HasCacheStats +
  mPayload :: "'d \<rightharpoonup> 'h"

definition getPipeline ::
  "('d \<Rightarrow> ('d, 'h) GraphicsPipelineCache \<Rightarrow> (error + 'd \<times> 'h) \<times> ('d, 'h) GraphicsPipelineCache)
     \<Rightarrow> 'd \<Rightarrow> ('d, 'h) GraphicsPipelineCache
     \<Rightarrow> (error + 'd \<times> 'h) \<times> ('d, 'h) GraphicsPipelineCache" where
  "getPipeline insertPipeline d c =
     (case GraphicsPipelineCache.mPayload c d of
        Some item \<Rightarrow> (Inr (d, item), c\<lparr>mCacheStats := hit (mCacheStats c)\<rparr>)
      | None \<Rightarrow> insertPipeline d (c\<lparr>mCacheStats := miss (mCacheStats c)\<rparr>))"

text \<open>
  Modelled from the spec: \<^verbatim>\<open>GraphicsPipelineCache::insertPipeline\<close>, whose body is not in
  the header. The specification: on a miss the cache invokes the external factory to
  create the object from the key, inserts it under the exact key and returns the new
  object; a factory failure is propagated to the caller as a typed failure result, the
  cache state unchanged (no partial insert). The factory (\<^verbatim>\<open>initializePipeline\<close> with the
  arguments \<^verbatim>\<open>getPipeline\<close> passes on) is the parameter \<open>factory\<close>.
\<close>

definition insertPipeline ::
  "('d \<Rightarrow> error + 'h) \<Rightarrow> 'd \<Rightarrow> ('d, 'h) GraphicsPipelineCache
     \<Rightarrow> (error + 'd \<times> 'h) \<times> ('d, 'h) GraphicsPipelineCache" where
  "insertPipeline factory d c =
     (case factory d of
        Inl e \<Rightarrow> (Inl e, c)
      | Inr newPipeline \<Rightarrow>
          (Inr (d, newPipeline),
           c\<lparr>GraphicsPipelineCache.mPayload := (GraphicsPipelineCache.mPayload c)(d \<mapsto> newPipeline)\<rparr>))"

subsection \<open>RenderPassCache\<close>

text \<open>
  \<^verbatim>\<open>RenderPassHelper\<close> owns a render pass and its counters; \<^verbatim>\<open>getRenderPass\<close> is the
  accessor of \<^verbatim>\<open>mRenderPass\<close>.
\<close>

record ('rp, 'pc) RenderPassHelper =
  mRenderPass :: 'rp
  mPerfCounters :: 'pc

definition getRenderPass :: "('rp, 'pc) RenderPassHelper \<Rightarrow> 'rp" where
  "getRenderPass h = mRenderPass h"

text \<open>
  \<^verbatim>\<open>OuterCache = HashMap<RenderPassDesc, InnerCache>\<close> is a map from the key type \<open>'d\<close>;
  \<^verbatim>\<open>InnerCache = HashMap<AttachmentOpsArray, RenderPassHelper>\<close> is a list of entries in
  the order its iteration visits them, so that \<^verbatim>\<open>innerCache.begin()\<close> is the head;
  \<open>'o\<close> is the inner key type. \<^verbatim>\<open>addRenderPass\<close> is declared in the header and not
  defined there: it is the parameter \<open>addRenderPass\<close> of the model.
\<close>

record ('d, 'o, 'rp, 'pc) RenderPassCache =
  mPayload :: "'d \<rightharpoonup> ('o \<times> ('rp, 'pc) RenderPassHelper) list"
  mCompatibleRenderPassCacheStats :: CacheStats
  mRenderPassWithOpsCacheStats :: CacheStats

definition getCompatibleRenderPass ::
  "('d \<Rightarrow> ('d, 'o, 'rp, 'pc) RenderPassCache \<Rightarrow> (error + 'rp) \<times> ('d, 'o, 'rp, 'pc) RenderPassCache)
     \<Rightarrow> 'd \<Rightarrow> ('d, 'o, 'rp, 'pc) RenderPassCache
     \<Rightarrow> (error + 'rp) \<times> ('d, 'o, 'rp, 'pc) RenderPassCache" where
  "getCompatibleRenderPass addRenderPass d c =
     (case RenderPassCache.mPayload c d of
        Some innerCache \<Rightarrow>
          (case innerCache of
             [] \<Rightarrow> (Inl AssertionFailure, c)
           | first # _ \<Rightarrow>
               (Inr (getRenderPass (snd first)),
                c\<lparr>mCompatibleRenderPassCacheStats := hit (mCompatibleRenderPassCacheStats c)\<rparr>))
      | None \<Rightarrow>
          addRenderPass d
            (c\<lparr>mCompatibleRenderPassCacheStats := miss (mCompatibleRenderPassCacheStats c)\<rparr>))"

text \<open>
  The property the code asserts before it reads \<^verbatim>\<open>innerCache.begin()\<close>: no key of the
  outer map has an empty inner cache.
\<close>

definition innerCachesNonEmpty :: "('d, 'o, 'rp, 'pc) RenderPassCache \<Rightarrow> bool" where
  "innerCachesNonEmpty c =
     (\<forall>d inner. RenderPassCache.mPayload c d = Some inner \<longrightarrow> inner \<noteq> [])"

section \<open>Render pass description\<close>

text \<open>
  \<^verbatim>\<open>SetBitField(lhs, rhs)\<close>: the macro casts \<open>rhs\<close> to the type of the field and asserts
  that casting back gives \<open>rhs\<close>, that is, that no bit was dropped. The result is the
  new value of the field, or \<open>None\<close> where the assertion fails.
\<close>

definition SetBitField :: "nat \<Rightarrow> ('a :: len) word option" where
  "SetBitField rhs =
     (let lhs = (of_nat rhs :: 'a word) in if unat lhs = rhs then Some lhs else None)"

text \<open>
  Modelled from the spec: the bound on the number of color attachments,
  \<^verbatim>\<open>gl::IMPLEMENTATION_MAX_DRAW_BUFFERS\<close>, is defined outside the header. The header's
  size assertions fix it: \<^verbatim>\<open>sizeof(RenderPassDesc) == 12\<close> is one byte of bit-fields,
  two one-byte masks and \<open>N + 1\<close> format bytes, so \<open>N = 8\<close>.
\<close>

definition IMPLEMENTATION_MAX_DRAW_BUFFERS :: nat where
  "IMPLEMENTATION_MAX_DRAW_BUFFERS = 8"

definition kMaxFramebufferNonResolveAttachments :: nat where
  "kMaxFramebufferNonResolveAttachments = IMPLEMENTATION_MAX_DRAW_BUFFERS + 1"

text \<open>
  The members of \<^verbatim>\<open>RenderPassDesc\<close> with their bit widths; \<^verbatim>\<open>gl::DrawBufferMask\<close> is a
  set of \<^verbatim>\<open>IMPLEMENTATION_MAX_DRAW_BUFFERS\<close> bits in one byte, and
  \<^verbatim>\<open>mAttachmentFormats\<close> is a \<^verbatim>\<open>std::array<uint8_t, kMaxFramebufferNonResolveAttachments>\<close>,
  a list of that length (\<open>RenderPassDesc_sized\<close>).
\<close>

record RenderPassDesc =
  mLogSamples :: "3 word"
  mColorAttachmentRange :: "4 word"
  mHasFramebufferFetch :: "1 word"
  mColorResolveAttachmentMask :: "8 word"
  mColorUnresolveAttachmentMask :: "8 word"
  mAttachmentFormats :: "8 word list"

definition RenderPassDesc_sized :: "RenderPassDesc \<Rightarrow> bool" where
  "RenderPassDesc_sized d = (length (mAttachmentFormats d) = kMaxFramebufferNonResolveAttachments)"

definition kDepthStencilFormatStorageMask :: "8 word" where
  "kDepthStencilFormatStorageMask = 0x7"

definition kResolveDepthStencilFlag :: "8 word" where
  "kResolveDepthStencilFlag = 0x40"

definition colorAttachmentRange :: "RenderPassDesc \<Rightarrow> nat" where
  "colorAttachmentRange d = unat (mColorAttachmentRange d)"

definition depthStencilAttachmentIndex :: "RenderPassDesc \<Rightarrow> nat" where
  "depthStencilAttachmentIndex d = colorAttachmentRange d"

definition hasDepthStencilResolveAttachment :: "RenderPassDesc \<Rightarrow> bool" where
  "hasDepthStencilResolveAttachment d =
     (last (mAttachmentFormats d) AND kResolveDepthStencilFlag \<noteq> 0)"

text \<open>
  \<^verbatim>\<open>operator[]\<close>: the stored format of an index, masked to the three depth/stencil bits
  from \<^verbatim>\<open>depthStencilAttachmentIndex()\<close> on. The \<^verbatim>\<open>angle::FormatID\<close> it returns is kept
  as the byte it is cast from.
\<close>

definition RenderPassDesc_index :: "RenderPassDesc \<Rightarrow> nat \<Rightarrow> error + 8 word" where
  "RenderPassDesc_index d index =
     (if \<not> index < IMPLEMENTATION_MAX_DRAW_BUFFERS + 1 then Inl AssertionFailure
      else let format = mAttachmentFormats d ! index
           in Inr (if index \<ge> depthStencilAttachmentIndex d
                   then format AND kDepthStencilFormatStorageMask
                   else format))"

text \<open>
  The constructor and the member functions from here on are declared in the header and
  defined in vk\_cache\_utils.cpp, which is not among the sources; each is modelled from
  the specification and the header's own comments.
\<close>

text \<open>
  Modelled from the spec: \<^verbatim>\<open>angle::FormatID::NONE\<close>, the sentinel a disabled slot stores
  (the enumeration is defined outside the header). The canonical empty state is all zero
  and has no attachment, so the sentinel is 0.
\<close>

definition FormatID_NONE :: "8 word" where
  "FormatID_NONE = 0"

text \<open>
  Modelled from the spec: the constructor \<^verbatim>\<open>RenderPassDesc()\<close>. Default construction
  gives the canonical empty state, every byte zero.
\<close>

definition RenderPassDesc_default :: RenderPassDesc where
  "RenderPassDesc_default =
     \<lparr>mLogSamples = 0, mColorAttachmentRange = 0, mHasFramebufferFetch = 0,
      mColorResolveAttachmentMask = 0, mColorUnresolveAttachmentMask = 0,
      mAttachmentFormats = replicate kMaxFramebufferNonResolveAttachments 0\<rparr>"

text \<open>
  Modelled from the spec: \<^verbatim>\<open>packColorAttachment\<close> sets the format of an enabled GL color
  attachment; formats are stored at their GL attachment index, and color attachments are
  in \<open>[0, colorAttachmentRange())\<close> with possible gaps, so the range grows to cover the
  index. Both stores go through \<^verbatim>\<open>SetBitField\<close>; an index outside the array is an
  assertion failure.
\<close>

definition packColorAttachment :: "nat \<Rightarrow> nat \<Rightarrow> RenderPassDesc \<Rightarrow> error + RenderPassDesc" where
  "packColorAttachment colorIndexGL formatID d =
     (if \<not> colorIndexGL < length (mAttachmentFormats d) then Inl AssertionFailure
      else case SetBitField formatID of
        None \<Rightarrow> Inl AssertionFailure
      | Some packedFormat \<Rightarrow>
          (case SetBitField (max (unat (mColorAttachmentRange d)) (colorIndexGL + 1)) of
             None \<Rightarrow> Inl AssertionFailure
           | Some newRange \<Rightarrow>
               Inr (d\<lparr>mAttachmentFormats := (mAttachmentFormats d)[colorIndexGL := packedFormat],
                      mColorAttachmentRange := newRange\<rparr>)))"

text \<open>
  Modelled from the spec: \<^verbatim>\<open>packColorAttachmentGap\<close> marks a GL color attachment index
  as disabled: the slot stores the sentinel.
\<close>

definition packColorAttachmentGap :: "nat \<Rightarrow> RenderPassDesc \<Rightarrow> error + RenderPassDesc" where
  "packColorAttachmentGap colorIndexGL d =
     (if \<not> colorIndexGL < length (mAttachmentFormats d) then Inl AssertionFailure
      else Inr (d\<lparr>mAttachmentFormats := (mAttachmentFormats d)[colorIndexGL := FormatID_NONE]\<rparr>))"

text \<open>
  Modelled from the spec: \<^verbatim>\<open>isColorAttachmentEnabled\<close>. An index is enabled when the
  format read for it (\<^verbatim>\<open>operator[]\<close>) is not the sentinel of a disabled slot.
\<close>

definition isColorAttachmentEnabled :: "RenderPassDesc \<Rightarrow> nat \<Rightarrow> error + bool" where
  "isColorAttachmentEnabled d colorIndexGL =
     (case RenderPassDesc_index d colorIndexGL of
        Inl e \<Rightarrow> Inl e
      | Inr formatID \<Rightarrow> Inr (formatID \<noteq> FormatID_NONE))"

text \<open>
  Modelled from the spec: \<^verbatim>\<open>hasDepthStencilAttachment\<close>. The depth/stencil attachment
  is packed right after the color attachments, at \<^verbatim>\<open>depthStencilAttachmentIndex()\<close>; it
  is there when the format read at that index is not the sentinel.
\<close>

definition hasDepthStencilAttachment :: "RenderPassDesc \<Rightarrow> error + bool" where
  "hasDepthStencilAttachment d =
     (case RenderPassDesc_index d (depthStencilAttachmentIndex d) of
        Inl e \<Rightarrow> Inl e
      | Inr formatID \<Rightarrow> Inr (formatID \<noteq> FormatID_NONE))"

text \<open>
  Modelled from the spec: the loop of \<^verbatim>\<open>attachmentCount\<close> over the color indices of the
  range, counting the enabled ones.
\<close>

fun countEnabled :: "RenderPassDesc \<Rightarrow> nat list \<Rightarrow> error + nat" where
  "countEnabled d [] = Inr 0"
| "countEnabled d (i # rest) =
     (case isColorAttachmentEnabled d i of
        Inl e \<Rightarrow> Inl e
      | Inr enabled \<Rightarrow>
          (case countEnabled d rest of
             Inl e \<Rightarrow> Inl e
           | Inr n \<Rightarrow> Inr ((if enabled then 1 else 0) + n)))"

text \<open>
  Modelled from the spec: \<^verbatim>\<open>attachmentCount\<close> is the number of attachments in the render
  pass, i.e. after removing disabled color attachments: the enabled color attachments of
  the range, the color resolve attachments (packed after the others, one per bit of the
  mask), the depth/stencil attachment and its resolve attachment.
\<close>

definition attachmentCount :: "RenderPassDesc \<Rightarrow> error + nat" where
  "attachmentCount d =
     (case countEnabled d [0..<colorAttachmentRange d] of
        Inl e \<Rightarrow> Inl e
      | Inr colorAttachmentCount \<Rightarrow>
          (case hasDepthStencilAttachment d of
             Inl e \<Rightarrow> Inl e
           | Inr hasDepthStencil \<Rightarrow>
               Inr (colorAttachmentCount
                    + length (filter (bit (mColorResolveAttachmentMask d))
                                [0..<IMPLEMENTATION_MAX_DRAW_BUFFERS])
                    + (if hasDepthStencil then 1 else 0)
                    + (if hasDepthStencilResolveAttachment d then 1 else 0))))"

text \<open>
  The states the mutators keep a description in: the array has its size, the range is at
  most the number of color attachments, and a color slot at or past the range holds
  either nothing or a depth/stencil format, which fits the three bits of the
  depth/stencil mask (the header: depth/stencil formats are in the range [1, 7]).
\<close>

definition RenderPassDesc_inv :: "RenderPassDesc \<Rightarrow> bool" where
  "RenderPassDesc_inv d =
     (RenderPassDesc_sized d
      \<and> colorAttachmentRange d \<le> IMPLEMENTATION_MAX_DRAW_BUFFERS
      \<and> (\<forall>j < IMPLEMENTATION_MAX_DRAW_BUFFERS. colorAttachmentRange d \<le> j \<longrightarrow>
            mAttachmentFormats d ! j AND kDepthStencilFormatStorageMask = mAttachmentFormats d ! j))"

section \<open>Packed scissor\<close>

text \<open>
  The four fields of \<^verbatim>\<open>PackedScissor\<close> are \<^verbatim>\<open>uint16_t\<close>, 16-bit words. The value the
  header reserves in the \<^verbatim>\<open>x\<close> field, \<^verbatim>\<open>kDynamicScissorSentinel\<close>, is an \<^verbatim>\<open>int32_t\<close>
  initialised with \<^verbatim>\<open>std::numeric_limits<decltype(PackedScissor::x)>::max()\<close>, the
  largest \<^verbatim>\<open>uint16_t\<close>.
\<close>

definition kDynamicScissorSentinel :: int where
  "kDynamicScissorSentinel = uint (- 1 :: 16 word)"

section \<open>Properties of the cache statistics\<close>

lemma unat_sum_no_wrap:
  fixes a b :: "64 word"
  assumes "unat a + unat b < 2 ^ 64"
  shows "unat (a + b) = unat a + unat b"
  using assms by (simp add: unat_word_ariths)

subsection \<open>Rounding to double\<close>

lemma roundToEven_of_int: "roundToEven (of_int n) = n"
  by (simp add: roundToEven_def)

lemma roundToEven_ge_floor: "\<lfloor>x\<rfloor> \<le> roundToEven x"
  by (simp add: roundToEven_def Let_def)

lemma roundToEven_le_floor1: "roundToEven x \<le> \<lfloor>x\<rfloor> + 1"
  by (simp add: roundToEven_def Let_def)

lemma roundToEven_mono:
  assumes "x \<le> y"
  shows "roundToEven x \<le> roundToEven y"
proof (cases "\<lfloor>x\<rfloor> < \<lfloor>y\<rfloor>")
  case True
  have "roundToEven x \<le> \<lfloor>x\<rfloor> + 1" by (rule roundToEven_le_floor1)
  also have "\<dots> \<le> \<lfloor>y\<rfloor>" using True by simp
  also have "\<dots> \<le> roundToEven y" by (rule roundToEven_ge_floor)
  finally show ?thesis .
next
  case False
  have "\<lfloor>x\<rfloor> \<le> \<lfloor>y\<rfloor>" using assms by (rule floor_mono)
  then have eq: "\<lfloor>y\<rfloor> = \<lfloor>x\<rfloor>" using False by simp
  have "x - of_int \<lfloor>x\<rfloor> \<le> y - of_int \<lfloor>x\<rfloor>" using assms by simp
  then show ?thesis
    unfolding roundToEven_def Let_def eq by auto
qed

lemma roundToEven_lower: "of_int a \<le> x \<Longrightarrow> a \<le> roundToEven x"
  using roundToEven_mono [of "of_int a" x] by (simp add: roundToEven_of_int)

lemma roundToEven_upper: "x \<le> of_int b \<Longrightarrow> roundToEven x \<le> b"
  using roundToEven_mono [of x "of_int b"] by (simp add: roundToEven_of_int)

lemma binade:
  assumes "0 < x"
  shows "2 powr of_int \<lfloor>log 2 x\<rfloor> \<le> x \<and> x < 2 powr of_int (\<lfloor>log 2 x\<rfloor> + 1)"
  using floor_log_eq_powr_iff [of x 2 "\<lfloor>log 2 x\<rfloor>"] assms by simp

lemma binade_unique:
  assumes "0 < x" and "2 powr of_int e \<le> x" and "x < 2 powr of_int (e + 1)"
  shows "\<lfloor>log 2 x\<rfloor> = e"
  using floor_log_eq_powr_iff [of x 2 e] assms by simp

lemma roundToDouble_pos:
  assumes "0 < x" and "2 powr of_int e \<le> x" and "x < 2 powr of_int (e + 1)"
  shows "roundToDouble x = of_int (roundToEven (x / 2 powr of_int (e - 52))) * 2 powr of_int (e - 52)"
  using assms binade_unique [OF assms] by (simp add: roundToDouble_def Let_def)

lemma powr_split_52: "(2::real) powr of_int e = 2 ^ 52 * 2 powr of_int (e - 52)"
proof -
  have "real_of_int e = 52 + real_of_int (e - 52)" by simp
  then have "(2::real) powr of_int e = 2 powr (52 + of_int (e - 52))" by (rule arg_cong)
  also have "\<dots> = 2 powr 52 * 2 powr of_int (e - 52)" by (rule powr_add)
  finally show ?thesis by simp
qed

lemma powr_split_53: "(2::real) powr of_int (e + 1) = 2 ^ 53 * 2 powr of_int (e - 52)"
proof -
  have "real_of_int (e + 1) = 53 + real_of_int (e - 52)" by simp
  then have "(2::real) powr of_int (e + 1) = 2 powr (53 + of_int (e - 52))" by (rule arg_cong)
  also have "\<dots> = 2 powr 53 * 2 powr of_int (e - 52)" by (rule powr_add)
  finally show ?thesis by simp
qed

lemma scaled_range:
  fixes x :: real
  assumes "2 powr of_int e \<le> x" and "x < 2 powr of_int (e + 1)"
  shows "2 ^ 52 \<le> x / 2 powr of_int (e - 52) \<and> x / 2 powr of_int (e - 52) < 2 ^ 53"
proof -
  let ?u = "(2::real) powr of_int (e - 52)"
  have u: "?u > 0" by simp
  have lo: "2 ^ 52 * ?u \<le> x" using assms(1) unfolding powr_split_52 [of e] .
  have hi: "x < 2 ^ 53 * ?u" using assms(2) unfolding powr_split_53 [of e] .
  have "2 ^ 52 \<le> x / ?u" using lo u by (simp only: pos_le_divide_eq)
  moreover have "x / ?u < 2 ^ 53" using hi u by (simp only: pos_divide_less_eq)
  ultimately show ?thesis by blast
qed

lemma roundToDouble_binade:
  assumes "0 < x" and "2 powr of_int e \<le> x" and "x < 2 powr of_int (e + 1)"
  shows "2 powr of_int e \<le> roundToDouble x \<and> roundToDouble x \<le> 2 powr of_int (e + 1)"
proof -
  let ?u = "(2::real) powr of_int (e - 52)"
  have u: "?u > 0" by simp
  have r: "2 ^ 52 \<le> x / ?u \<and> x / ?u < 2 ^ 53" using assms(2,3) by (rule scaled_range)
  have lo: "(2 ^ 52 :: int) \<le> roundToEven (x / ?u)"
    using r by (intro roundToEven_lower) simp
  have hi: "roundToEven (x / ?u) \<le> (2 ^ 53 :: int)"
    using r by (intro roundToEven_upper) simp
  have a: "(2::real) powr of_int e = 2 ^ 52 * ?u"
    by (rule powr_split_52)
  have b: "(2::real) powr of_int (e + 1) = 2 ^ 53 * ?u"
    by (rule powr_split_53)
  have lo': "(2 ^ 52 :: real) \<le> of_int (roundToEven (x / ?u))"
    using lo by (metis of_int_le_iff of_int_numeral of_int_power)
  have hi': "of_int (roundToEven (x / ?u)) \<le> (2 ^ 53 :: real)"
    using hi by (metis of_int_le_iff of_int_numeral of_int_power)
  show ?thesis
    unfolding roundToDouble_pos [OF assms] a b
    using lo' hi' u by (simp add: mult_right_mono)
qed

lemma roundToDouble_nonneg: "0 \<le> x \<Longrightarrow> 0 \<le> roundToDouble x"
proof (cases "x = 0")
  case True
  then show ?thesis by (simp add: roundToDouble_def)
next
  case False
  assume "0 \<le> x"
  then have p: "0 < x" using False by simp
  have "2 powr of_int \<lfloor>log 2 x\<rfloor> \<le> roundToDouble x"
    using roundToDouble_binade [OF p] binade [OF p] by blast
  moreover have "(0::real) < 2 powr of_int \<lfloor>log 2 x\<rfloor>" by simp
  ultimately show ?thesis by linarith
qed

lemma roundToDouble_mono:
  assumes "0 \<le> x" and "x \<le> y"
  shows "roundToDouble x \<le> roundToDouble y"
proof (cases "x = 0")
  case True
  then show ?thesis using assms roundToDouble_nonneg [of y] by (simp add: roundToDouble_def)
next
  case False
  then have px: "0 < x" using assms by simp
  then have py: "0 < y" using assms by simp
  let ?ex = "\<lfloor>log 2 x\<rfloor>" and ?ey = "\<lfloor>log 2 y\<rfloor>"
  have bx: "2 powr of_int ?ex \<le> x \<and> x < 2 powr of_int (?ex + 1)" by (rule binade [OF px])
  have by': "2 powr of_int ?ey \<le> y \<and> y < 2 powr of_int (?ey + 1)" by (rule binade [OF py])
  have le: "?ex \<le> ?ey"
    using assms px by (intro floor_mono) simp
  show ?thesis
  proof (cases "?ex = ?ey")
    case True
    let ?u = "(2::real) powr of_int (?ex - 52)"
    have u: "?u > 0" by simp
    have "x / ?u \<le> y / ?u" using assms u by (simp add: divide_right_mono)
    then have "roundToEven (x / ?u) \<le> roundToEven (y / ?u)" by (rule roundToEven_mono)
    then have "of_int (roundToEven (x / ?u)) * ?u \<le> of_int (roundToEven (y / ?u)) * ?u"
      using u by (simp add: mult_right_mono)
    moreover have "roundToDouble x = of_int (roundToEven (x / ?u)) * ?u"
      using bx px by (intro roundToDouble_pos) simp_all
    moreover have "roundToDouble y = of_int (roundToEven (y / ?u)) * ?u"
      using by' py unfolding True [symmetric] by (intro roundToDouble_pos) simp_all
    ultimately show ?thesis by simp
  next
    case False
    then have lt: "?ex + 1 \<le> ?ey" using le by simp
    have "roundToDouble x \<le> 2 powr of_int (?ex + 1)"
      using roundToDouble_binade [OF px] bx by blast
    also have "\<dots> \<le> 2 powr of_int ?ey"
      using lt by (intro powr_mono) simp_all
    also have "\<dots> \<le> roundToDouble y"
      using roundToDouble_binade [OF py] by' by blast
    finally show ?thesis .
  qed
qed

lemma roundToDouble_pow2: "roundToDouble (2 ^ k) = 2 ^ k"
proof -
  have p: "(0::real) < 2 ^ k" by simp
  have e: "(2::real) powr of_int (int k) = 2 ^ k" by (simp add: powr_realpow)
  have lo: "(2::real) powr of_int (int k) \<le> 2 ^ k" using e by simp
  have hi: "(2::real) ^ k < 2 powr of_int (int k + 1)"
  proof -
    have "real_of_int (int k + 1) = of_int (int k) + 1" by simp
    then have "(2::real) powr of_int (int k + 1) = 2 powr (of_int (int k) + 1)" by (rule arg_cong)
    also have "\<dots> = 2 powr of_int (int k) * 2 powr 1" by (rule powr_add)
    also have "\<dots> = 2 ^ k * 2" using e by simp
    finally show ?thesis by simp
  qed
  let ?u = "(2::real) powr of_int (int k - 52)"
  have a: "(2::real) ^ k = 2 ^ 52 * ?u"
    using powr_split_52 [of "int k"] e by simp
  have "2 ^ k / ?u = (2 ^ 52 :: real)"
    by (subst a) simp
  also have "\<dots> = of_int (2 ^ 52)" by simp
  finally have q: "2 ^ k / ?u = of_int (2 ^ 52)" .
  have "roundToDouble (2 ^ k) = of_int (roundToEven (2 ^ k / ?u)) * ?u"
    using p lo hi by (rule roundToDouble_pos)
  also have "\<dots> = of_int (2 ^ 52) * ?u"
    unfolding q roundToEven_of_int ..
  also have "\<dots> = 2 ^ k" using a by simp
  finally show ?thesis .
qed

lemma roundToDouble_0: "roundToDouble 0 = 0"
  by (simp add: roundToDouble_def)

lemma roundToDouble_1: "roundToDouble 1 = 1"
  using roundToDouble_pow2 [of 0] by simp

subsection \<open>The counters\<close>

text \<open>
  C3. \<^verbatim>\<open>CacheStats::accumulate\<close> adds the source's hit and miss counters onto the
  receiver's (in 64-bit unsigned arithmetic) and, taking the source by const reference,
  leaves it as it is; the report of a cache, \<^verbatim>\<open>HasCacheStats::accumulateCacheStats\<close>,
  hands the cache's counters to the accumulator and then resets them to zero, whatever the
  accumulator does. With an accumulator that merges by \<^verbatim>\<open>CacheStats::accumulate\<close>, the
  first report of a cache \<open>c\<close> leaves destination plus source in the destination and
  zero in the cache, and a second report right after it changes nothing: no count is taken
  twice.
\<close>

theorem accumulate_adds_and_drains:
  "accumulate dst src =
     \<lparr>mHitCount = mHitCount dst + mHitCount src, mMissCount = mMissCount dst + mMissCount src\<rparr>
   \<and> accumulateCacheStats f ct acc c =
       (f ct (mCacheStats c) acc, c\<lparr>mCacheStats := \<lparr>mHitCount = 0, mMissCount = 0\<rparr>\<rparr>)
   \<and> (let m = (\<lambda>t s d. accumulate d s);
          r1 = accumulateCacheStats m ct dst c;
          r2 = accumulateCacheStats m ct (fst r1) (snd r1)
      in fst r1 = accumulate dst (mCacheStats c)
         \<and> mCacheStats (snd r1) = \<lparr>mHitCount = 0, mMissCount = 0\<rparr>
         \<and> r2 = r1)"
  by (simp add: accumulate_def accumulateCacheStats_def reset_def Let_def)

lemma roundToDouble_small_nat:
  assumes "n < 2 ^ 53"
  shows "roundToDouble (real n) = real n"
proof (cases "n = 0")
  case True
  then show ?thesis by (simp add: roundToDouble_0)
next
  case False
  then have p: "0 < real n" by simp
  let ?e = "\<lfloor>log 2 (real n)\<rfloor>"
  have b: "2 powr of_int ?e \<le> real n \<and> real n < 2 powr of_int (?e + 1)" by (rule binade [OF p])
  have "2 powr of_int ?e < (2::real) powr 53"
  proof -
    have "real n < 2 ^ 53" using assms by (metis of_nat_less_iff of_nat_numeral of_nat_power)
    then show ?thesis using b by simp
  qed
  then have "of_int ?e < (53::real)" by (simp only: powr_less_cancel_iff) 
  then have e: "?e \<le> 52" by linarith
  let ?u = "(2::real) powr of_int (?e - 52)"
  have pe: "(2::real) powr real_of_int (52 - ?e) = 2 ^ nat (52 - ?e)"
    using e by (subst powr_real_of_int) simp_all
  have u: "?u = 1 / 2 ^ nat (52 - ?e)"
  proof -
    have "real_of_int (?e - 52) = - real_of_int (52 - ?e)" by simp
    then have "?u = 2 powr (- real_of_int (52 - ?e))" by (rule arg_cong)
    also have "\<dots> = 1 / 2 powr real_of_int (52 - ?e)" by (rule powr_minus_divide)
    also have "\<dots> = 1 / 2 ^ nat (52 - ?e)" by (simp only: pe)
    finally show ?thesis .
  qed
  have q: "real n / ?u = of_int (int n * 2 ^ nat (52 - ?e))"
    unfolding u by simp
  have "roundToDouble (real n) = of_int (roundToEven (real n / ?u)) * ?u"
    using p b by (intro roundToDouble_pos) simp_all
  also have "\<dots> = of_int (int n * 2 ^ nat (52 - ?e)) * ?u"
    unfolding q roundToEven_of_int ..
  also have "\<dots> = real n" unfolding u by simp
  finally show ?thesis .
qed

lemma roundToDouble_nat_ge_1:
  assumes "n \<noteq> 0"
  shows "1 \<le> roundToDouble (real n)"
proof -
  have "1 \<le> real n" using assms by simp
  then have "roundToDouble 1 \<le> roundToDouble (real n)"
    by (intro roundToDouble_mono) simp_all
  then show ?thesis by (simp add: roundToDouble_1)
qed

lemma roundToDouble_nat_nonneg: "0 \<le> roundToDouble (real n)"
  by (rule roundToDouble_nonneg) simp

lemma roundToDouble_nat_mono: "m \<le> n \<Longrightarrow> roundToDouble (real m) \<le> roundToDouble (real n)"
  by (intro roundToDouble_mono) simp_all

lemma double_of_uint64_ge_1:
  assumes "w \<noteq> 0"
  shows "1 \<le> double_of_uint64 w"
proof -
  have "unat w \<noteq> 0" using assms by (simp add: unat_eq_0)
  then show ?thesis unfolding double_of_uint64_def by (rule roundToDouble_nat_ge_1)
qed

lemma double_of_uint64_nonneg: "0 \<le> double_of_uint64 w"
  unfolding double_of_uint64_def by (rule roundToDouble_nat_nonneg)

lemma double_of_uint64_mono:
  assumes "unat a \<le> unat b"
  shows "double_of_uint64 a \<le> double_of_uint64 b"
  unfolding double_of_uint64_def using assms by (rule roundToDouble_nat_mono)

lemma getHitRatio_value:
  "getHitRatio s =
     Some (if mHitCount s + mMissCount s = 0 then 0
           else roundToDouble (double_of_uint64 (mHitCount s)
                               / double_of_uint64 (mHitCount s + mMissCount s)))"
proof (cases "mHitCount s + mMissCount s = 0")
  case True
  then show ?thesis by (simp add: getHitRatio_def)
next
  case False
  have "double_of_uint64 (mHitCount s + mMissCount s) \<noteq> 0"
    using double_of_uint64_ge_1 [OF False] by linarith
  then show ?thesis using False by (simp add: getHitRatio_def double_div_def)
qed

lemma sum_zero_iff_no_wrap:
  fixes a b :: "64 word"
  assumes "unat a + unat b < 2 ^ 64"
  shows "(a + b = 0) = (a = 0 \<and> b = 0)"
proof -
  have s: "unat (a + b) = unat a + unat b" using assms by (rule unat_sum_no_wrap)
  have "(a + b = 0) = (unat (a + b) = 0)" by (simp add: unat_eq_0)
  also have "\<dots> = (unat a = 0 \<and> unat b = 0)" by (simp only: s add_is_0)
  also have "\<dots> = (a = 0 \<and> b = 0)" by (simp add: unat_eq_0)
  finally show ?thesis .
qed

lemma double_quotient_in_unit_interval:
  assumes "0 \<le> a" and "a \<le> b" and "1 \<le> b"
  shows "0 \<le> roundToDouble (a / b) \<and> roundToDouble (a / b) \<le> 1"
proof -
  have q: "0 \<le> a / b \<and> a / b \<le> 1" using assms by (simp add: divide_le_eq)
  have "roundToDouble (a / b) \<le> roundToDouble 1"
    using q by (intro roundToDouble_mono) simp_all
  moreover have "0 \<le> roundToDouble (a / b)" using q by (intro roundToDouble_nonneg) simp
  ultimately show ?thesis by (simp add: roundToDouble_1)
qed

lemma roundToEven_numeral: "roundToEven (numeral k) = numeral k"
  using roundToEven_of_int [of "numeral k"] by simp

lemma roundToDouble_three_quarters: "roundToDouble (3 / 4) = 3 / 4"
proof -
  have h: "(2::real) powr real_of_int (- 1) = 1 / 2"
    by (simp add: powr_minus_divide)
  have o: "(2::real) powr real_of_int (- 1 + 1) = 1" by simp
  have u: "(2::real) powr real_of_int (- 1 - 52) = 1 / 2 ^ 53"
    by (simp add: powr_minus_divide)
  have "roundToDouble (3 / 4)
          = of_int (roundToEven ((3 / 4) / 2 powr real_of_int (- 1 - 52))) * 2 powr real_of_int (- 1 - 52)"
  proof (rule roundToDouble_pos)
    show "(0::real) < 3 / 4" by simp
    show "2 powr real_of_int (- 1) \<le> (3 / 4 :: real)" unfolding h by simp
    show "(3 / 4 :: real) < 2 powr real_of_int (- 1 + 1)" unfolding o by simp
  qed
  also have "\<dots> = 3 / 4"
    unfolding u by (simp add: roundToEven_numeral)
  finally show ?thesis .
qed

lemma double_of_uint64_2_63: "double_of_uint64 (2 ^ 63) = 2 ^ 63"
proof -
  have "real (unat (2 ^ 63 :: 64 word)) = 2 ^ 63" by simp
  then show ?thesis
    unfolding double_of_uint64_def by (simp only: roundToDouble_pow2)
qed

lemma double_of_uint64_1: "double_of_uint64 1 = 1"
  by (simp add: double_of_uint64_def roundToDouble_1)

text \<open>
  The model follows the rounding of the two conversions and of the division. With
  \<open>2^53 + 1\<close> hits and 1 miss the numerator is converted to \<open>2^53\<close> (a tie, to the
  even significand), the divisor \<open>2^53 + 2\<close> is exact, and the quotient rounds to
  \<open>1 - 2^-52\<close>, which is not the real quotient of the two counters.
\<close>

lemma getHitRatio_rounds_above_2_53:
  "getHitRatio \<lparr>mHitCount = 2 ^ 53 + 1, mMissCount = 1\<rparr> = Some (1 - 1 / 2 ^ 52)
   \<and> real (unat (2 ^ 53 + 1 :: 64 word)) / (real (unat (2 ^ 53 + 1 :: 64 word)) + real (unat (1 :: 64 word)))
       \<noteq> 1 - 1 / 2 ^ 52"
proof -
  have p1: "(2::real) powr real_of_int 53 = 2 ^ 53" by simp
  have p2: "(2::real) powr real_of_int (53 + 1) = 2 ^ 54" by simp
  have u: "(2::real) powr real_of_int (53 - 52) = 2" by simp
  have h: "roundToDouble (2 ^ 53 + 1) = 2 ^ 53"
  proof -
    have "roundToDouble (2 ^ 53 + 1)
            = of_int (roundToEven ((2 ^ 53 + 1) / 2 powr real_of_int (53 - 52))) * 2 powr real_of_int (53 - 52)"
      by (rule roundToDouble_pos) (simp_all only: p1 p2, simp_all)
    moreover have "roundToEven ((2 ^ 53 + 1) / 2) = 2 ^ 52"
    proof -
      have f: "\<lfloor>(2 ^ 53 + 1) / (2::real)\<rfloor> = 2 ^ 52"
        by (rule floor_unique) simp_all
      show ?thesis unfolding roundToEven_def Let_def f by simp
    qed
    ultimately show ?thesis unfolding u by simp
  qed
  have t: "roundToDouble (2 ^ 53 + 2) = 2 ^ 53 + 2"
  proof -
    have "roundToDouble (2 ^ 53 + 2)
            = of_int (roundToEven ((2 ^ 53 + 2) / 2 powr real_of_int (53 - 52))) * 2 powr real_of_int (53 - 52)"
      by (rule roundToDouble_pos) (simp_all only: p1 p2, simp_all)
    moreover have "(2 ^ 53 + 2) / (2::real) = of_int (2 ^ 52 + 1)" by simp
    ultimately show ?thesis unfolding u by (simp only: roundToEven_of_int) simp
  qed
  have q: "roundToDouble (2 ^ 53 / (2 ^ 53 + 2)) = 1 - 1 / 2 ^ 52"
  proof -
    have m1: "(2::real) powr real_of_int (- 1) = 1 / 2" by (simp add: powr_minus_divide)
    have m0: "(2::real) powr real_of_int (- 1 + 1) = 1" by simp
    have mu: "(2::real) powr real_of_int (- 1 - 52) = 1 / 2 ^ 53" by (simp add: powr_minus_divide)
    have "roundToDouble (2 ^ 53 / (2 ^ 53 + 2))
            = of_int (roundToEven ((2 ^ 53 / (2 ^ 53 + 2)) / 2 powr real_of_int (- 1 - 52)))
                * 2 powr real_of_int (- 1 - 52)"
      by (rule roundToDouble_pos) (simp_all only: m1 m0, simp_all)
    moreover have "roundToEven ((2 ^ 53 / (2 ^ 53 + 2)) / (1 / 2 ^ 53)) = 2 ^ 53 - 2"
    proof -
      have f: "\<lfloor>(2 ^ 53 / (2 ^ 53 + 2)) / (1 / 2 ^ 53 :: real)\<rfloor> = 2 ^ 53 - 2"
        by (rule floor_unique) simp_all
      show ?thesis unfolding roundToEven_def Let_def f by simp
    qed
    ultimately show ?thesis unfolding mu by simp
  qed
  have c1: "real (unat (2 ^ 53 + 1 :: 64 word)) = 2 ^ 53 + 1" by simp
  have c2: "real (unat ((2 ^ 53 + 1) + 1 :: 64 word)) = 2 ^ 53 + 2" by simp
  have nz: "((2 ^ 53 + 1) + 1 :: 64 word) \<noteq> 0" by simp
  have "getHitRatio \<lparr>mHitCount = 2 ^ 53 + 1, mMissCount = 1\<rparr>
          = Some (roundToDouble (roundToDouble (2 ^ 53 + 1) / roundToDouble (2 ^ 53 + 2)))"
    using nz unfolding getHitRatio_value double_of_uint64_def
    by (simp only: CacheStats.simps c1 c2 if_False)
  then have "getHitRatio \<lparr>mHitCount = 2 ^ 53 + 1, mMissCount = 1\<rparr> = Some (1 - 1 / 2 ^ 52)"
    unfolding h t q .
  then show ?thesis by simp
qed


text \<open>
  C10, as the code has it. \<^verbatim>\<open>getHitRatio\<close> always returns a value, for every
  \<^verbatim>\<open>CacheStats\<close>: 0 when the 64-bit sum of the two counters is zero, and otherwise the
  \<^verbatim>\<open>double\<close> quotient of the hits and that sum, each converted to \<^verbatim>\<open>double\<close>; the
  divisor of that division is never zero. When the sum of the two counters fits the 64-bit
  counter type, the value is 0 if both counters are zero and otherwise the \<^verbatim>\<open>double\<close>
  quotient of hits and hits plus misses, and it lies between 0 and 1. When the sum is
  below \<open>2^53\<close> the conversions are exact and the value is the real quotient hits /
  (hits + misses) rounded once to \<^verbatim>\<open>double\<close>. (When the sum wraps, the test and the
  divisor see the wrapped sum; see the counterexample.)
\<close>

theorem getHitRatio_total_and_ratio:
  "getHitRatio s =
     Some (if mHitCount s + mMissCount s = 0 then 0
           else roundToDouble (double_of_uint64 (mHitCount s)
                               / double_of_uint64 (mHitCount s + mMissCount s)))
   \<and> (mHitCount s + mMissCount s \<noteq> 0 \<longrightarrow> double_of_uint64 (mHitCount s + mMissCount s) \<noteq> 0)
   \<and> (unat (mHitCount s) + unat (mMissCount s) < 2 ^ 64 \<longrightarrow>
        getHitRatio s =
          Some (if mHitCount s = 0 \<and> mMissCount s = 0 then 0
                else roundToDouble (roundToDouble (real (unat (mHitCount s)))
                       / roundToDouble (real (unat (mHitCount s) + unat (mMissCount s)))))
        \<and> (\<forall>r. getHitRatio s = Some r \<longrightarrow> 0 \<le> r \<and> r \<le> 1))
   \<and> (unat (mHitCount s) + unat (mMissCount s) < 2 ^ 53 \<longrightarrow>
        getHitRatio s =
          Some (if mHitCount s = 0 \<and> mMissCount s = 0 then 0
                else roundToDouble (real (unat (mHitCount s))
                       / (real (unat (mHitCount s)) + real (unat (mMissCount s))))))"
proof (intro conjI impI)
  show v: "getHitRatio s =
     Some (if mHitCount s + mMissCount s = 0 then 0
           else roundToDouble (double_of_uint64 (mHitCount s)
                               / double_of_uint64 (mHitCount s + mMissCount s)))"
    by (rule getHitRatio_value)
  show "double_of_uint64 (mHitCount s + mMissCount s) \<noteq> 0"
    if "mHitCount s + mMissCount s \<noteq> 0"
    using double_of_uint64_ge_1 [OF that] by linarith
  {
    assume nw: "unat (mHitCount s) + unat (mMissCount s) < 2 ^ 64"
    have su: "unat (mHitCount s + mMissCount s) = unat (mHitCount s) + unat (mMissCount s)"
      using nw by (rule unat_sum_no_wrap)
    have z: "(mHitCount s + mMissCount s = 0) = (mHitCount s = 0 \<and> mMissCount s = 0)"
      using nw by (rule sum_zero_iff_no_wrap)
    show w: "getHitRatio s =
          Some (if mHitCount s = 0 \<and> mMissCount s = 0 then 0
                else roundToDouble (roundToDouble (real (unat (mHitCount s)))
                       / roundToDouble (real (unat (mHitCount s) + unat (mMissCount s)))))"
      unfolding v z by (simp only: double_of_uint64_def su)
    show "\<forall>r. getHitRatio s = Some r \<longrightarrow> 0 \<le> r \<and> r \<le> 1"
    proof (cases "mHitCount s + mMissCount s = 0")
      case True
      then show ?thesis unfolding v by simp
    next
      case False
      have le: "double_of_uint64 (mHitCount s) \<le> double_of_uint64 (mHitCount s + mMissCount s)"
        by (rule double_of_uint64_mono) (simp add: su)
      have "0 \<le> roundToDouble (double_of_uint64 (mHitCount s)
                               / double_of_uint64 (mHitCount s + mMissCount s))
          \<and> roundToDouble (double_of_uint64 (mHitCount s)
                               / double_of_uint64 (mHitCount s + mMissCount s)) \<le> 1"
        using double_of_uint64_nonneg le double_of_uint64_ge_1 [OF False]
        by (rule double_quotient_in_unit_interval)
      then show ?thesis unfolding v using False by simp
    qed
  }
  {
    assume sm: "unat (mHitCount s) + unat (mMissCount s) < 2 ^ 53"
    have nw: "unat (mHitCount s) + unat (mMissCount s) < 2 ^ 64"
      using sm by (rule less_trans) simp
    have su: "unat (mHitCount s + mMissCount s) = unat (mHitCount s) + unat (mMissCount s)"
      using nw by (rule unat_sum_no_wrap)
    have z: "(mHitCount s + mMissCount s = 0) = (mHitCount s = 0 \<and> mMissCount s = 0)"
      using nw by (rule sum_zero_iff_no_wrap)
    have h: "double_of_uint64 (mHitCount s) = real (unat (mHitCount s))"
      unfolding double_of_uint64_def using sm by (intro roundToDouble_small_nat) simp
    have "roundToDouble (real (unat (mHitCount s) + unat (mMissCount s)))
            = real (unat (mHitCount s) + unat (mMissCount s))"
      using sm by (rule roundToDouble_small_nat)
    then have t: "double_of_uint64 (mHitCount s + mMissCount s)
               = real (unat (mHitCount s)) + real (unat (mMissCount s))"
      unfolding double_of_uint64_def su by (simp only: of_nat_add)
    show "getHitRatio s =
          Some (if mHitCount s = 0 \<and> mMissCount s = 0 then 0
                else roundToDouble (real (unat (mHitCount s))
                       / (real (unat (mHitCount s)) + real (unat (mMissCount s)))))"
      unfolding v z h t ..
  }
qed


theorem getHitRatio_total_and_ratio_witness:
  "unat (3 :: 64 word) + unat (1 :: 64 word) < 2 ^ 64
   \<and> unat (3 :: 64 word) + unat (1 :: 64 word) < 2 ^ 53
   \<and> getHitRatio \<lparr>mHitCount = 3, mMissCount = 1\<rparr> = Some (3 / 4)"
proof -
  let ?s = "\<lparr>mHitCount = 3, mMissCount = 1\<rparr>"
  have a: "unat (mHitCount ?s) + unat (mMissCount ?s) < 2 ^ 53" by simp
  have "getHitRatio ?s =
          Some (if mHitCount ?s = 0 \<and> mMissCount ?s = 0 then 0
                else roundToDouble (real (unat (mHitCount ?s))
                       / (real (unat (mHitCount ?s)) + real (unat (mMissCount ?s)))))"
    using getHitRatio_total_and_ratio [of ?s] a by blast
  then have "getHitRatio ?s = Some (3 / 4)"
    by (simp add: roundToDouble_three_quarters)
  then show ?thesis by simp
qed

text \<open>
  C10 as stated fails where the 64-bit sum wraps. With \<open>2^63\<close> hits and \<open>2^63\<close>
  misses the counters are not zero, the wrapped sum is, and the result is 0 where the
  quotient hits / (hits + misses) is 1/2. With \<open>2^63\<close> hits and \<open>2^63 + 1\<close> misses
  the wrapped sum is 1 and the result is \<open>2^63\<close>, outside [0, 1]. (All the numbers
  involved are powers of two, so the conversions to \<^verbatim>\<open>double\<close> and the division are
  exact on these inputs.)
\<close>

theorem getHitRatio_wrap_counterexample:
  "mHitCount \<lparr>mHitCount = 2 ^ 63, mMissCount = 2 ^ 63\<rparr> \<noteq> 0
   \<and> getHitRatio \<lparr>mHitCount = 2 ^ 63, mMissCount = 2 ^ 63\<rparr> = Some 0
   \<and> real (unat (2 ^ 63 :: 64 word)) / (real (unat (2 ^ 63 :: 64 word)) + real (unat (2 ^ 63 :: 64 word)))
       = 1 / 2
   \<and> getHitRatio \<lparr>mHitCount = 2 ^ 63, mMissCount = 2 ^ 63 + 1\<rparr> = Some (2 ^ 63)
   \<and> (1 :: real) < 2 ^ 63"
proof -
  have a: "getHitRatio \<lparr>mHitCount = 2 ^ 63, mMissCount = 2 ^ 63\<rparr> = Some 0"
    by (simp add: getHitRatio_def)
  have s: "(2 ^ 63 :: 64 word) + (2 ^ 63 + 1) = 1" by simp
  have "getHitRatio \<lparr>mHitCount = 2 ^ 63, mMissCount = 2 ^ 63 + 1\<rparr>
          = (if (1 :: 64 word) = 0 then Some 0
             else double_div (double_of_uint64 (2 ^ 63)) (double_of_uint64 1))"
    unfolding getHitRatio_def by (simp only: CacheStats.simps s)
  also have "\<dots> = double_div (double_of_uint64 (2 ^ 63)) (double_of_uint64 1)"
    by simp
  also have "\<dots> = Some (roundToDouble (2 ^ 63))"
    unfolding double_of_uint64_2_63 double_of_uint64_1 by (simp add: double_div_def)
  also have "\<dots> = Some (2 ^ 63)" by (simp only: roundToDouble_pow2)
  finally have b: "getHitRatio \<lparr>mHitCount = 2 ^ 63, mMissCount = 2 ^ 63 + 1\<rparr> = Some (2 ^ 63)" .
  show ?thesis using a b by simp
qed

section \<open>Properties of the transition cache\<close>

lemma kNumGraphicsPipelineDirtyBits_eq: "kNumGraphicsPipelineDirtyBits = 63"
  by (simp add: kNumGraphicsPipelineDirtyBits_def kGraphicsPipelineDescSumOfSizes_def
    kVertexInputAttributesSize_def kRenderPassDescSize_def kPackedRasterizationAndMultisampleStateSize_def
    kPackedDepthStencilStateSize_def kPackedInputAssemblyAndColorBlendStateSize_def sizeof_VkViewport_def
    sizeof_PackedScissor_def sizeof_PackedExtent_def kGraphicsPipelineDirtyBitBytes_def)

lemma kGraphicsPipelineDescSize_eq: "kGraphicsPipelineDescSize = 252"
  by (simp add: kGraphicsPipelineDescSize_def kGraphicsPipelineDescSumOfSizes_def
    kVertexInputAttributesSize_def kRenderPassDescSize_def kPackedRasterizationAndMultisampleStateSize_def
    kPackedDepthStencilStateSize_def kPackedInputAssemblyAndColorBlendStateSize_def sizeof_VkViewport_def
    sizeof_PackedScissor_def sizeof_PackedExtent_def)

lemma uint32_of_bytes_byte0: "ucast (uint32_of_bytes b0 b1 b2 b3) = b0"
  unfolding uint32_of_bytes_def
  by (rule bit_word_eqI) (auto simp add: bit_simps dest: bit_imp_le_length)

lemma uint32_of_bytes_byte1: "ucast (drop_bit 8 (uint32_of_bytes b0 b1 b2 b3)) = b1"
  unfolding uint32_of_bytes_def
  by (rule bit_word_eqI) (auto simp add: bit_simps dest: bit_imp_le_length)

lemma uint32_of_bytes_byte2: "ucast (drop_bit 16 (uint32_of_bytes b0 b1 b2 b3)) = b2"
  unfolding uint32_of_bytes_def
  by (rule bit_word_eqI) (auto simp add: bit_simps dest: bit_imp_le_length)

lemma uint32_of_bytes_byte3: "ucast (drop_bit 24 (uint32_of_bytes b0 b1 b2 b3)) = b3"
  unfolding uint32_of_bytes_def
  by (rule bit_word_eqI) (auto simp add: bit_simps dest: bit_imp_le_length)

lemma uint32_of_bytes_inj:
  "(uint32_of_bytes a0 a1 a2 a3 = uint32_of_bytes b0 b1 b2 b3) = (a0 = b0 \<and> a1 = b1 \<and> a2 = b2 \<and> a3 = b3)"
  by (metis uint32_of_bytes_byte0 uint32_of_bytes_byte1 uint32_of_bytes_byte2 uint32_of_bytes_byte3)

lemma all_less_4: "(\<forall>k<(4::nat). P k) = (P 0 \<and> P 1 \<and> P 2 \<and> P 3)"
proof -
  have c: "\<And>k::nat. (k < 4) = (k = 0 \<or> k = 1 \<or> k = 2 \<or> k = 3)" by arith
  show ?thesis unfolding c by blast
qed

lemma getPtr_uint32_eq_iff:
  "(getPtr_uint32 d i = getPtr_uint32 d' i) =
     (\<forall>k < kGraphicsPipelineDirtyBitBytes. d ! (kGraphicsPipelineDirtyBitBytes * i + k) = d' ! (kGraphicsPipelineDirtyBitBytes * i + k))"
  by (simp add: getPtr_uint32_def uint32_of_bytes_inj kGraphicsPipelineDirtyBitBytes_def all_less_4)

lemma transitionMatchLoop_iff:
  "transitionMatchLoop is d d' = (\<forall>i \<in> set is. getPtr_uint32 d i = getPtr_uint32 d' i)"
  by (induction "is") auto

lemma GraphicsPipelineTransitionMatch_iff_spec:
  "GraphicsPipelineTransitionMatch (bits t) b (desc t) d = transitionMatchesSpec t b d"
  by (auto simp: GraphicsPipelineTransitionMatch_def transitionMatchesSpec_def sameFlaggedBytes_def
       transitionMatchLoop_iff dirtyBitsOf_def getPtr_uint32_eq_iff)

lemma findTransitionLoop_Some_iff:
  "(findTransitionLoop ts b d = Some p) =
     (\<exists>pre t post. ts = pre @ t # post \<and> (\<forall>u \<in> set pre. \<not> transitionMatchesSpec u b d)
         \<and> transitionMatchesSpec t b d \<and> target t = p)"
proof (induction ts)
  case Nil
  then show ?case by simp
next
  case (Cons a ts)
  show ?case
  proof (cases "transitionMatchesSpec a b d")
    case True
    have "(\<exists>pre t post. a # ts = pre @ t # post \<and> (\<forall>u \<in> set pre. \<not> transitionMatchesSpec u b d)
         \<and> transitionMatchesSpec t b d \<and> target t = p) = (target a = p)"
    proof
      assume "\<exists>pre t post. a # ts = pre @ t # post \<and> (\<forall>u \<in> set pre. \<not> transitionMatchesSpec u b d)
         \<and> transitionMatchesSpec t b d \<and> target t = p"
      then obtain pre t post where e: "a # ts = pre @ t # post" "\<forall>u \<in> set pre. \<not> transitionMatchesSpec u b d"
        "target t = p" by blast
      have "pre = []" using e True by (cases pre) auto
      then show "target a = p" using e by simp
    next
      assume "target a = p"
      then have "a # ts = [] @ a # ts \<and> (\<forall>u \<in> set []. \<not> transitionMatchesSpec u b d)
         \<and> transitionMatchesSpec a b d \<and> target a = p" using True by simp
      then show "\<exists>pre t post. a # ts = pre @ t # post \<and> (\<forall>u \<in> set pre. \<not> transitionMatchesSpec u b d)
         \<and> transitionMatchesSpec t b d \<and> target t = p" by blast
    qed
    then show ?thesis using True by (simp add: GraphicsPipelineTransitionMatch_iff_spec)
  next
    case False
    have "(\<exists>pre t post. a # ts = pre @ t # post \<and> (\<forall>u \<in> set pre. \<not> transitionMatchesSpec u b d)
         \<and> transitionMatchesSpec t b d \<and> target t = p) =
       (\<exists>pre t post. ts = pre @ t # post \<and> (\<forall>u \<in> set pre. \<not> transitionMatchesSpec u b d)
         \<and> transitionMatchesSpec t b d \<and> target t = p)" (is "?L = ?R")
    proof
      assume ?L
      then obtain pre t post where e: "a # ts = pre @ t # post" "\<forall>u \<in> set pre. \<not> transitionMatchesSpec u b d"
        "transitionMatchesSpec t b d" "target t = p" by blast
      then obtain pre' where "pre = a # pre'" using False by (cases pre) auto
      then have "ts = pre' @ t # post \<and> (\<forall>u \<in> set pre'. \<not> transitionMatchesSpec u b d)" using e by simp
      then show ?R using e by blast
    next
      assume ?R
      then obtain pre t post where e: "ts = pre @ t # post" "\<forall>u \<in> set pre. \<not> transitionMatchesSpec u b d"
        "transitionMatchesSpec t b d" "target t = p" by blast
      then have "a # ts = (a # pre) @ t # post \<and> (\<forall>u \<in> set (a # pre). \<not> transitionMatchesSpec u b d)"
        using False by simp
      then show ?L using e by blast
    qed
    then show ?thesis using False Cons.IH by (simp add: GraphicsPipelineTransitionMatch_iff_spec)
  qed
qed

lemma findTransitionLoop_None_iff:
  "(findTransitionLoop ts b d = None) = (\<forall>t \<in> set ts. \<not> transitionMatchesSpec t b d)"
  by (induction ts) (auto simp: GraphicsPipelineTransitionMatch_iff_spec)


lemma sameFlaggedBytes_loop:
  "sameFlaggedBytes b d d' = transitionMatchLoop (dirtyBitsOf b) d d'"
  by (auto simp: sameFlaggedBytes_def transitionMatchLoop_iff dirtyBitsOf_def getPtr_uint32_eq_iff)

lemma dirtyBit_read_in_range:
  assumes "validDesc d" and "i \<in> set (dirtyBitsOf b)"
  shows "4 * i + 3 < length d"
  using assms
  by (simp add: validDesc_def dirtyBitsOf_def kGraphicsPipelineDescSize_eq
        kNumGraphicsPipelineDirtyBits_eq)

lemma sameFlaggedBytes_sym: "sameFlaggedBytes b d d' \<Longrightarrow> sameFlaggedBytes b d' d"
  by (simp add: sameFlaggedBytes_def)

lemma sameFlaggedBytes_trans:
  "sameFlaggedBytes b d d' \<Longrightarrow> sameFlaggedBytes b d' d'' \<Longrightarrow> sameFlaggedBytes b d d''"
  by (simp add: sameFlaggedBytes_def)

lemma transitionMatchesSpec_frame:
  assumes "bits t' = bits t" and "sameFlaggedBytes (bits t) (desc t) (desc t')"
    and "sameFlaggedBytes b d d'"
  shows "transitionMatchesSpec t' b d' = transitionMatchesSpec t b d"
proof (cases "bits t = b")
  case True
  have "sameFlaggedBytes b (desc t') d' = sameFlaggedBytes b (desc t) d"
    using assms True
    by (meson sameFlaggedBytes_sym sameFlaggedBytes_trans)
  then show ?thesis using assms True by (simp add: transitionMatchesSpec_def)
next
  case False
  then show ?thesis using assms by (simp add: transitionMatchesSpec_def)
qed

lemma findTransitionLoop_frame:
  assumes "list_all2 (\<lambda>t t'. bits t' = bits t \<and> target t' = target t
                          \<and> sameFlaggedBytes (bits t) (desc t) (desc t')) ts ts'"
    and "sameFlaggedBytes b d d'"
  shows "findTransitionLoop ts' b d' = findTransitionLoop ts b d"
  using assms(1)
proof (induction ts ts' rule: list_all2_induct)
  case Nil
  then show ?case by simp
next
  case (Cons t ts t' ts')
  have "transitionMatchesSpec t' b d' = transitionMatchesSpec t b d"
    using Cons.hyps(1) assms(2) by (simp add: transitionMatchesSpec_frame)
  then have m: "GraphicsPipelineTransitionMatch (bits t') b (desc t') d'
                = GraphicsPipelineTransitionMatch (bits t) b (desc t) d"
    by (simp only: GraphicsPipelineTransitionMatch_iff_spec)
  have tgt: "target t' = target t"
    using Cons.hyps(1) by simp
  show ?case
    by (simp only: findTransitionLoop.simps m tgt Cons.IH)
qed

text \<open>
  C1. \<^verbatim>\<open>findTransition(bits, desc)\<close> returns the target of the first recorded transition
  that matches, and fails exactly when none matches, where a transition matches if and
  only if its recorded dirty bits equal \<^verbatim>\<open>bits\<close> and, in every 4-byte range flagged in
  \<^verbatim>\<open>bits\<close>, its stored description has the bytes of \<^verbatim>\<open>desc\<close>. No byte outside the
  flagged ranges is compared: the result is the same for any probe, and any stored
  descriptions, that have the same bytes in the flagged ranges.
\<close>

theorem findTransition_matches_flagged_ranges:
  "((findTransition h b d = Some p) =
      (\<exists>pre t post. mTransitions h = pre @ t # post
          \<and> (\<forall>u \<in> set pre. \<not> transitionMatchesSpec u b d)
          \<and> transitionMatchesSpec t b d \<and> target t = p))
   \<and> ((findTransition h b d = None) = (\<forall>t \<in> set (mTransitions h). \<not> transitionMatchesSpec t b d))
   \<and> (list_all2 (\<lambda>t t'. bits t' = bits t \<and> target t' = target t
                          \<and> sameFlaggedBytes (bits t) (desc t) (desc t'))
          (mTransitions h) (mTransitions h')
        \<and> sameFlaggedBytes b d d'
       \<longrightarrow> findTransition h' b d' = findTransition h b d)"
  unfolding findTransition_def
  using findTransitionLoop_Some_iff [of "mTransitions h" b d p]
    findTransitionLoop_None_iff [of "mTransitions h" b d]
    findTransitionLoop_frame [of "mTransitions h" "mTransitions h'" b d d']
  by blast

theorem findTransition_matches_flagged_ranges_witness:
  "sameFlaggedBytes 5 ((replicate 252 0)[0 := 9]) ((replicate 252 0)[0 := 9, 100 := 1])
   \<and> findTransition
        \<lparr>mTransitions =
           [\<lparr>bits = 3, desc = (replicate 252 0)[0 := 9], target = 1 :: nat\<rparr>,
            \<lparr>bits = 5, desc = (replicate 252 0)[0 := 9, 8 := 7], target = 3\<rparr>,
            \<lparr>bits = 5, desc = (replicate 252 0)[0 := 9, 200 := 4], target = 2\<rparr>]\<rparr>
        5 ((replicate 252 0)[0 := 9, 100 := 1]) = Some 2"
proof -
  let ?D = "(replicate 252 (0 :: 8 word))[0 := 9]"
  let ?h = "\<lparr>mTransitions =
           [\<lparr>bits = 3, desc = ?D, target = 1 :: nat\<rparr>,
            \<lparr>bits = 5, desc = ?D[8 := 7], target = 3\<rparr>,
            \<lparr>bits = 5, desc = ?D[200 := 4], target = 2\<rparr>]\<rparr>"
  have a: "sameFlaggedBytes 5 ?D (?D[100 := 1])"
    by (simp add: sameFlaggedBytes_loop dirtyBitsOf_def kNumGraphicsPipelineDirtyBits_eq
          upt_rec bit_numeral_rec getPtr_uint32_def)
  have l: "list_all2 (\<lambda>t t'. bits t' = bits t \<and> target t' = target t
                          \<and> sameFlaggedBytes (bits t) (desc t) (desc t'))
            (mTransitions ?h) (mTransitions ?h)"
    by (simp add: sameFlaggedBytes_def)
  have e: "findTransition ?h 5 ?D = Some 2"
    by (simp add: findTransition_def GraphicsPipelineTransitionMatch_def dirtyBitsOf_def
          kNumGraphicsPipelineDirtyBits_eq upt_rec bit_numeral_rec getPtr_uint32_def
          uint32_of_bytes_inj)
  have "findTransition ?h 5 (?D[100 := 1]) = findTransition ?h 5 ?D"
    using findTransition_matches_flagged_ranges [of ?h 5 ?D 2 ?h "?D[100 := 1]"] a l by blast
  then show ?thesis using a e by simp
qed

section \<open>Properties of the object caches\<close>

text \<open>
  C2. A \<^verbatim>\<open>get(k)\<close> that misses, the insertion of the entry under \<open>k\<close>, and a second
  \<^verbatim>\<open>get(k)\<close>: the second call is a hit that returns the stored object, the map is as the
  insertion left it, and over the two calls the miss counter and the hit counter have each
  gone up by exactly one (in the counters' 64-bit arithmetic). First for
  \<^verbatim>\<open>DescriptorSetCache\<close>, whose caller inserts with \<^verbatim>\<open>insert\<close> after the miss; then for
  \<^verbatim>\<open>GraphicsPipelineCache::getPipeline\<close>, where the miss path ends in \<^verbatim>\<open>insertPipeline\<close>:
  if that call succeeds, has inserted the entry and has left the counters alone, the first
  call returns its result and the second call, whatever \<^verbatim>\<open>insertPipeline\<close> would do now,
  is a hit returning the same key and object.
\<close>

theorem get_twice_miss_then_hit:
  "(DescriptorSetCache.mPayload c k = None \<longrightarrow>
      (let r1 = DescriptorSetCache_get k c;
           c2 = DescriptorSetCache_insert k v (snd r1);
           r2 = DescriptorSetCache_get k c2
       in fst r1 = None \<and> fst r2 = Some v
          \<and> DescriptorSetCache.mPayload c2 k = Some v
          \<and> DescriptorSetCache.mPayload (snd r2) = DescriptorSetCache.mPayload c2
          \<and> mMissCount (mCacheStats (snd r2)) = mMissCount (mCacheStats c) + 1
          \<and> mHitCount (mCacheStats (snd r2)) = mHitCount (mCacheStats c) + 1))
   \<and> (GraphicsPipelineCache.mPayload g d = None
        \<and> ins d (g\<lparr>mCacheStats := miss (mCacheStats g)\<rparr>) = (Inr (d, h), g1)
        \<and> GraphicsPipelineCache.mPayload g1 d = Some h
        \<and> mCacheStats g1 = miss (mCacheStats g) \<longrightarrow>
      getPipeline ins d g = (Inr (d, h), g1)
      \<and> (let r2 = getPipeline ins' d g1
         in fst r2 = Inr (d, h)
            \<and> GraphicsPipelineCache.mPayload (snd r2) = GraphicsPipelineCache.mPayload g1
            \<and> mMissCount (mCacheStats (snd r2)) = mMissCount (mCacheStats g) + 1
            \<and> mHitCount (mCacheStats (snd r2)) = mHitCount (mCacheStats g) + 1))"
  by (simp add: DescriptorSetCache_get_def DescriptorSetCache_insert_def getPipeline_def
        hit_def miss_def Let_def)

theorem get_twice_miss_then_hit_witness:
  "DescriptorSetCache.mPayload
      \<lparr>mCacheStats = \<lparr>mHitCount = 4, mMissCount = 2\<rparr>,
       DescriptorSetCache.mPayload = (Map.empty :: nat \<rightharpoonup> nat)\<rparr> 1 = None
   \<and> fst (DescriptorSetCache_get 1
        (DescriptorSetCache_insert 1 7
          (snd (DescriptorSetCache_get 1
             \<lparr>mCacheStats = \<lparr>mHitCount = 4, mMissCount = 2\<rparr>,
              DescriptorSetCache.mPayload = (Map.empty :: nat \<rightharpoonup> nat)\<rparr>)))) = Some 7
   \<and> mCacheStats (snd (DescriptorSetCache_get 1
        (DescriptorSetCache_insert 1 7
          (snd (DescriptorSetCache_get 1
             \<lparr>mCacheStats = \<lparr>mHitCount = 4, mMissCount = 2\<rparr>,
              DescriptorSetCache.mPayload = (Map.empty :: nat \<rightharpoonup> nat)\<rparr>)))))
       = \<lparr>mHitCount = 5, mMissCount = 3\<rparr>
   \<and> getPipeline (insertPipeline (\<lambda>d. Inr (d + 10)))  5
        \<lparr>mCacheStats = \<lparr>mHitCount = 4, mMissCount = 2\<rparr>,
         GraphicsPipelineCache.mPayload = (Map.empty :: nat \<rightharpoonup> nat)\<rparr>
       = (Inr (5, 15),
          \<lparr>mCacheStats = \<lparr>mHitCount = 4, mMissCount = 3\<rparr>,
           GraphicsPipelineCache.mPayload = [5 \<mapsto> 15]\<rparr>)
   \<and> getPipeline (insertPipeline (\<lambda>d. Inl Stop)) 5
        \<lparr>mCacheStats = \<lparr>mHitCount = 4, mMissCount = 3\<rparr>,
         GraphicsPipelineCache.mPayload = [5 \<mapsto> (15 :: nat)]\<rparr>
       = (Inr (5 :: nat, 15),
          \<lparr>mCacheStats = \<lparr>mHitCount = 5, mMissCount = 3\<rparr>,
           GraphicsPipelineCache.mPayload = [5 \<mapsto> 15]\<rparr>)"
proof -
  let ?c = "\<lparr>mCacheStats = \<lparr>mHitCount = 4, mMissCount = 2\<rparr>,
            DescriptorSetCache.mPayload = (Map.empty :: nat \<rightharpoonup> nat)\<rparr>"
  let ?g = "\<lparr>mCacheStats = \<lparr>mHitCount = 4, mMissCount = 2\<rparr>,
            GraphicsPipelineCache.mPayload = (Map.empty :: nat \<rightharpoonup> nat)\<rparr>"
  let ?g1 = "\<lparr>mCacheStats = \<lparr>mHitCount = 4, mMissCount = 3\<rparr>,
             GraphicsPipelineCache.mPayload = [5 \<mapsto> (15 :: nat)]\<rparr>"
  have m: "DescriptorSetCache.mPayload ?c 1 = None" by simp
  have n: "GraphicsPipelineCache.mPayload ?g 5 = None" by simp
  have i: "insertPipeline (\<lambda>d. Inr (d + 10)) 5 (?g\<lparr>mCacheStats := miss (mCacheStats ?g)\<rparr>)
            = (Inr (5, 15), ?g1)"
    by (simp add: insertPipeline_def miss_def)
  have p: "GraphicsPipelineCache.mPayload ?g1 5 = Some 15" by simp
  have q: "mCacheStats ?g1 = miss (mCacheStats ?g)" by (simp add: miss_def)
  show ?thesis
    using get_twice_miss_then_hit
      [of ?c 1 7 ?g 5 "insertPipeline (\<lambda>d. Inr (d + 10))" 15 ?g1 "insertPipeline (\<lambda>d. Inl Stop)"]
      m n i p q
    by (simp add: Let_def prod_eq_iff)
qed

text \<open>
  C9. On a miss \<^verbatim>\<open>getPipeline\<close> counts the miss and returns whatever
  \<^verbatim>\<open>insertPipeline\<close> returns, adding no change of its own. With \<^verbatim>\<open>insertPipeline\<close> as the
  specification describes it, a failing factory call gives the caller the factory's failure
  and leaves the map as it was: no entry for the key, no other entry touched. (The miss
  has been counted.)
\<close>

theorem getPipeline_factory_failure:
  "(GraphicsPipelineCache.mPayload c d = None \<longrightarrow>
      getPipeline ins d c = ins d (c\<lparr>mCacheStats := miss (mCacheStats c)\<rparr>))
   \<and> (GraphicsPipelineCache.mPayload c d = None \<and> factory d = Inl e \<longrightarrow>
      getPipeline (insertPipeline factory) d c = (Inl e, c\<lparr>mCacheStats := miss (mCacheStats c)\<rparr>)
      \<and> GraphicsPipelineCache.mPayload (snd (getPipeline (insertPipeline factory) d c))
          = GraphicsPipelineCache.mPayload c)"
  by (simp add: getPipeline_def insertPipeline_def)

theorem getPipeline_factory_failure_witness:
  "GraphicsPipelineCache.mPayload
      \<lparr>mCacheStats = \<lparr>mHitCount = 0, mMissCount = 0\<rparr>,
       GraphicsPipelineCache.mPayload = [1 \<mapsto> (11 :: nat)]\<rparr> (2 :: nat) = None
   \<and> getPipeline (insertPipeline (\<lambda>d. if d = 2 then Inl Stop else Inr (d + 10))) 2
        \<lparr>mCacheStats = \<lparr>mHitCount = 0, mMissCount = 0\<rparr>,
         GraphicsPipelineCache.mPayload = [1 \<mapsto> (11 :: nat)]\<rparr>
       = (Inl Stop,
          \<lparr>mCacheStats = \<lparr>mHitCount = 0, mMissCount = 1\<rparr>,
           GraphicsPipelineCache.mPayload = [1 \<mapsto> 11]\<rparr>)"
proof -
  let ?c = "\<lparr>mCacheStats = \<lparr>mHitCount = 0, mMissCount = 0\<rparr>,
            GraphicsPipelineCache.mPayload = [(1 :: nat) \<mapsto> (11 :: nat)]\<rparr>"
  let ?factory = "\<lambda>d :: nat. if d = 2 then Inl Stop else (Inr (d + 10) :: error + nat)"
  have n: "GraphicsPipelineCache.mPayload ?c 2 = None" by simp
  have f: "?factory 2 = Inl Stop" by simp
  have "getPipeline (insertPipeline ?factory) 2 ?c
          = (Inl Stop, ?c\<lparr>mCacheStats := miss (mCacheStats ?c)\<rparr>)"
    using getPipeline_factory_failure [of ?c 2 "insertPipeline ?factory" ?factory Stop] n f
    by blast
  then show ?thesis using n by (simp add: miss_def)
qed

text \<open>
  \<^verbatim>\<open>getCompatibleRenderPass\<close> leaves no empty inner cache behind if \<^verbatim>\<open>addRenderPass\<close>
  leaves none: on a hit the map is not changed, and on a miss only \<^verbatim>\<open>addRenderPass\<close>
  changes it.
\<close>

lemma getCompatibleRenderPass_keeps_nonempty:
  assumes "innerCachesNonEmpty c"
    and "\<And>c'. innerCachesNonEmpty c' \<Longrightarrow> innerCachesNonEmpty (snd (add d c'))"
  shows "innerCachesNonEmpty (snd (getCompatibleRenderPass add d c))"
proof (cases "RenderPassCache.mPayload c d")
  case None
  have "innerCachesNonEmpty (c\<lparr>mCompatibleRenderPassCacheStats := miss (mCompatibleRenderPassCacheStats c)\<rparr>)"
    using assms(1) by (simp add: innerCachesNonEmpty_def)
  then show ?thesis using None assms(2) by (simp add: getCompatibleRenderPass_def)
next
  case (Some inner)
  then show ?thesis using assms(1)
    by (auto simp: getCompatibleRenderPass_def innerCachesNonEmpty_def split: list.splits)
qed




section \<open>Properties of the render pass description\<close>

lemma SetBitField_Some:
  "rhs < 2 ^ LENGTH('a) \<Longrightarrow> (SetBitField rhs :: ('a::len) word option) = Some (of_nat rhs)"
  by (simp add: SetBitField_def Let_def unat_of_nat)

lemma RenderPassDesc_default_inv: "RenderPassDesc_inv RenderPassDesc_default"
  by (simp add: RenderPassDesc_inv_def RenderPassDesc_default_def RenderPassDesc_sized_def
     colorAttachmentRange_def kMaxFramebufferNonResolveAttachments_def
     IMPLEMENTATION_MAX_DRAW_BUFFERS_def)

lemma packColorAttachment_result:
  assumes inv: "RenderPassDesc_inv d" and i: "i < IMPLEMENTATION_MAX_DRAW_BUFFERS" and f: "f < 256"
  shows "packColorAttachment i f d =
           Inr (d\<lparr>mAttachmentFormats := (mAttachmentFormats d)[i := of_nat f],
                  mColorAttachmentRange := of_nat (max (colorAttachmentRange d) (i + 1))\<rparr>)"
proof -
  have len: "i < length (mAttachmentFormats d)"
    using inv i by (simp add: RenderPassDesc_inv_def RenderPassDesc_sized_def
        kMaxFramebufferNonResolveAttachments_def)
  have sf: "(SetBitField f :: 8 word option) = Some (of_nat f)"
    using f by (simp add: SetBitField_Some)
  have "max (colorAttachmentRange d) (i + 1) \<le> 8"
    using inv i by (simp add: RenderPassDesc_inv_def IMPLEMENTATION_MAX_DRAW_BUFFERS_def)
  then have sr: "(SetBitField (max (colorAttachmentRange d) (i + 1)) :: 4 word option)
                  = Some (of_nat (max (colorAttachmentRange d) (i + 1)))"
    by (simp add: SetBitField_Some)
  show ?thesis
    unfolding packColorAttachment_def
    using len sf sr by (simp add: colorAttachmentRange_def)
qed

lemma packColorAttachment_range:
  assumes inv: "RenderPassDesc_inv d" and i: "i < IMPLEMENTATION_MAX_DRAW_BUFFERS"
    and p: "packColorAttachment i f d = Inr d'" and f: "f < 256"
  shows "colorAttachmentRange d' = max (colorAttachmentRange d) (i + 1)"
proof -
  have "max (colorAttachmentRange d) (i + 1) \<le> 8"
    using inv i by (simp add: RenderPassDesc_inv_def IMPLEMENTATION_MAX_DRAW_BUFFERS_def)
  then have "unat (of_nat (max (colorAttachmentRange d) (i + 1)) :: 4 word)
           = max (colorAttachmentRange d) (i + 1)"
    by (simp add: unat_of_nat)
  then show ?thesis
    using p packColorAttachment_result [OF inv i f] by (auto simp: colorAttachmentRange_def)
qed

lemma packColorAttachment_formats:
  assumes inv: "RenderPassDesc_inv d" and i: "i < IMPLEMENTATION_MAX_DRAW_BUFFERS"
    and p: "packColorAttachment i f d = Inr d'" and f: "f < 256"
  shows "mAttachmentFormats d' = (mAttachmentFormats d)[i := of_nat f]"
  using p packColorAttachment_result [OF inv i f] by auto

lemma packColorAttachment_inv:
  assumes inv: "RenderPassDesc_inv d" and i: "i < IMPLEMENTATION_MAX_DRAW_BUFFERS"
    and p: "packColorAttachment i f d = Inr d'" and f: "f < 256"
  shows "RenderPassDesc_inv d'"
proof -
  have r: "colorAttachmentRange d' = max (colorAttachmentRange d) (i + 1)"
    using assms by (rule packColorAttachment_range)
  have m: "mAttachmentFormats d' = (mAttachmentFormats d)[i := of_nat f]"
    using assms by (rule packColorAttachment_formats)
  show ?thesis
    unfolding RenderPassDesc_inv_def RenderPassDesc_sized_def r m
    using inv i
    by (auto simp: RenderPassDesc_inv_def RenderPassDesc_sized_def)
qed

lemma isColorAttachmentEnabled_eq:
  assumes "j < IMPLEMENTATION_MAX_DRAW_BUFFERS"
  shows "isColorAttachmentEnabled d j =
           Inr ((if colorAttachmentRange d \<le> j
                 then mAttachmentFormats d ! j AND kDepthStencilFormatStorageMask
                 else mAttachmentFormats d ! j) \<noteq> FormatID_NONE)"
  using assms
  by (simp add: isColorAttachmentEnabled_def RenderPassDesc_index_def Let_def
        depthStencilAttachmentIndex_def)

lemma isColorAttachmentEnabled_inv:
  assumes "RenderPassDesc_inv d" and "j < IMPLEMENTATION_MAX_DRAW_BUFFERS"
  shows "isColorAttachmentEnabled d j = Inr (mAttachmentFormats d ! j \<noteq> FormatID_NONE)"
  using assms
  by (simp add: isColorAttachmentEnabled_eq RenderPassDesc_inv_def)

lemma format_byte_nonzero:
  assumes "0 < f" and "f < 256"
  shows "(of_nat f :: 8 word) \<noteq> FormatID_NONE"
proof -
  have "unat (of_nat f :: 8 word) = f" using assms by (simp add: unat_of_nat)
  then show ?thesis using assms by (auto simp: FormatID_NONE_def)
qed

lemma packColorAttachmentGap_inv:
  assumes inv: "RenderPassDesc_inv d" and i: "i < IMPLEMENTATION_MAX_DRAW_BUFFERS"
  shows "\<exists>d'. packColorAttachmentGap i d = Inr d' \<and> RenderPassDesc_inv d'
            \<and> colorAttachmentRange d' = colorAttachmentRange d
            \<and> mAttachmentFormats d' = (mAttachmentFormats d)[i := FormatID_NONE]"
proof -
  have len: "i < length (mAttachmentFormats d)"
    using inv i by (simp add: RenderPassDesc_inv_def RenderPassDesc_sized_def
        kMaxFramebufferNonResolveAttachments_def)
  have "RenderPassDesc_inv (d\<lparr>mAttachmentFormats := (mAttachmentFormats d)[i := FormatID_NONE]\<rparr>)"
    using inv len
    by (auto simp: RenderPassDesc_inv_def RenderPassDesc_sized_def colorAttachmentRange_def
          nth_list_update FormatID_NONE_def)
  then show ?thesis
    using len by (simp add: packColorAttachmentGap_def colorAttachmentRange_def)
qed

text \<open>
  C6, as the model has it. For a description in a state the mutators keep
  (\<open>RenderPassDesc_inv\<close>, which the default description has and
  \<^verbatim>\<open>packColorAttachment\<close> and \<^verbatim>\<open>packColorAttachmentGap\<close> preserve), a valid color index
  \<open>i\<close> and a format \<open>f\<close> (not the sentinel, fitting the byte of a slot):
  \<^verbatim>\<open>packColorAttachment(i, f)\<close> succeeds; afterwards \<^verbatim>\<open>isColorAttachmentEnabled(i)\<close> is
  true, and for every other color index \<open>j\<close> \<^verbatim>\<open>isColorAttachmentEnabled(j)\<close> is what it
  was before. The mutator changes the format byte of index \<open>i\<close> and the color attachment
  range, which becomes the larger of the old range and \<open>i + 1\<close>, and nothing else: every
  other format byte, the last one with its flag bits included, and every other member is
  as before.
\<close>

theorem packColorAttachment_enables_only_its_index:
  "RenderPassDesc_inv d \<and> i < IMPLEMENTATION_MAX_DRAW_BUFFERS \<and> 0 < f \<and> f < 256 \<longrightarrow>
     (\<exists>d'. packColorAttachment i f d = Inr d'
        \<and> d' = d\<lparr>mAttachmentFormats := (mAttachmentFormats d)[i := of_nat f],
                  mColorAttachmentRange := of_nat (max (colorAttachmentRange d) (i + 1))\<rparr>
        \<and> isColorAttachmentEnabled d' i = Inr True
        \<and> (\<forall>j < IMPLEMENTATION_MAX_DRAW_BUFFERS. j \<noteq> i \<longrightarrow>
              isColorAttachmentEnabled d' j = isColorAttachmentEnabled d j)
        \<and> (\<forall>j. j \<noteq> i \<longrightarrow> mAttachmentFormats d' ! j = mAttachmentFormats d ! j)
        \<and> length (mAttachmentFormats d') = length (mAttachmentFormats d)
        \<and> colorAttachmentRange d' = max (colorAttachmentRange d) (i + 1)
        \<and> mLogSamples d' = mLogSamples d
        \<and> mHasFramebufferFetch d' = mHasFramebufferFetch d
        \<and> mColorResolveAttachmentMask d' = mColorResolveAttachmentMask d
        \<and> mColorUnresolveAttachmentMask d' = mColorUnresolveAttachmentMask d
        \<and> RenderPassDesc_inv d')"
proof (intro impI, elim conjE)
  assume inv: "RenderPassDesc_inv d" and i: "i < IMPLEMENTATION_MAX_DRAW_BUFFERS"
    and f0: "0 < f" and f: "f < 256"
  let ?d' = "d\<lparr>mAttachmentFormats := (mAttachmentFormats d)[i := of_nat f],
                  mColorAttachmentRange := of_nat (max (colorAttachmentRange d) (i + 1))\<rparr>"
  have p: "packColorAttachment i f d = Inr ?d'"
    by (rule packColorAttachment_result [OF inv i f])
  have inv': "RenderPassDesc_inv ?d'"
    using inv i p f by (rule packColorAttachment_inv)
  have r: "colorAttachmentRange ?d' = max (colorAttachmentRange d) (i + 1)"
    using inv i p f by (rule packColorAttachment_range)
  have len: "i < length (mAttachmentFormats d)"
    using inv i by (simp add: RenderPassDesc_inv_def RenderPassDesc_sized_def
        kMaxFramebufferNonResolveAttachments_def)
  have "isColorAttachmentEnabled ?d' i = Inr (mAttachmentFormats ?d' ! i \<noteq> FormatID_NONE)"
    by (rule isColorAttachmentEnabled_inv [OF inv' i])
  then have e: "isColorAttachmentEnabled ?d' i = Inr True"
    using format_byte_nonzero [OF f0 f] len by simp
  have o: "\<forall>j < IMPLEMENTATION_MAX_DRAW_BUFFERS. j \<noteq> i \<longrightarrow>
              isColorAttachmentEnabled ?d' j = isColorAttachmentEnabled d j"
  proof (intro allI impI)
    fix j assume j: "j < IMPLEMENTATION_MAX_DRAW_BUFFERS" and ne: "j \<noteq> i"
    have "isColorAttachmentEnabled ?d' j = Inr (mAttachmentFormats ?d' ! j \<noteq> FormatID_NONE)"
      by (rule isColorAttachmentEnabled_inv [OF inv' j])
    moreover have "isColorAttachmentEnabled d j = Inr (mAttachmentFormats d ! j \<noteq> FormatID_NONE)"
      by (rule isColorAttachmentEnabled_inv [OF inv j])
    ultimately show "isColorAttachmentEnabled ?d' j = isColorAttachmentEnabled d j"
      using ne by simp
  qed
  have n: "\<forall>j. j \<noteq> i \<longrightarrow> mAttachmentFormats ?d' ! j = mAttachmentFormats d ! j"
    by simp
  have u: "length (mAttachmentFormats ?d') = length (mAttachmentFormats d)
        \<and> mLogSamples ?d' = mLogSamples d \<and> mHasFramebufferFetch ?d' = mHasFramebufferFetch d
        \<and> mColorResolveAttachmentMask ?d' = mColorResolveAttachmentMask d
        \<and> mColorUnresolveAttachmentMask ?d' = mColorUnresolveAttachmentMask d"
    by simp
  show "\<exists>d'. packColorAttachment i f d = Inr d'
        \<and> d' = d\<lparr>mAttachmentFormats := (mAttachmentFormats d)[i := of_nat f],
                  mColorAttachmentRange := of_nat (max (colorAttachmentRange d) (i + 1))\<rparr>
        \<and> isColorAttachmentEnabled d' i = Inr True
        \<and> (\<forall>j < IMPLEMENTATION_MAX_DRAW_BUFFERS. j \<noteq> i \<longrightarrow>
              isColorAttachmentEnabled d' j = isColorAttachmentEnabled d j)
        \<and> (\<forall>j. j \<noteq> i \<longrightarrow> mAttachmentFormats d' ! j = mAttachmentFormats d ! j)
        \<and> length (mAttachmentFormats d') = length (mAttachmentFormats d)
        \<and> colorAttachmentRange d' = max (colorAttachmentRange d) (i + 1)
        \<and> mLogSamples d' = mLogSamples d
        \<and> mHasFramebufferFetch d' = mHasFramebufferFetch d
        \<and> mColorResolveAttachmentMask d' = mColorResolveAttachmentMask d
        \<and> mColorUnresolveAttachmentMask d' = mColorUnresolveAttachmentMask d
        \<and> RenderPassDesc_inv d'"
    using p e o n u r inv' by blast
qed

theorem packColorAttachment_enables_only_its_index_witness:
  "RenderPassDesc_inv
      \<lparr>mLogSamples = 2, mColorAttachmentRange = 1, mHasFramebufferFetch = 0,
       mColorResolveAttachmentMask = 1, mColorUnresolveAttachmentMask = 0,
       mAttachmentFormats = [7, 0, 0, 0, 0, 0, 0, 0, 0x80]\<rparr>
   \<and> packColorAttachment 2 5
      \<lparr>mLogSamples = 2, mColorAttachmentRange = 1, mHasFramebufferFetch = 0,
       mColorResolveAttachmentMask = 1, mColorUnresolveAttachmentMask = 0,
       mAttachmentFormats = [7, 0, 0, 0, 0, 0, 0, 0, 0x80]\<rparr>
     = Inr \<lparr>mLogSamples = 2, mColorAttachmentRange = 3, mHasFramebufferFetch = 0,
            mColorResolveAttachmentMask = 1, mColorUnresolveAttachmentMask = 0,
            mAttachmentFormats = [7, 0, 5, 0, 0, 0, 0, 0, 0x80]\<rparr>
   \<and> isColorAttachmentEnabled
        \<lparr>mLogSamples = 2, mColorAttachmentRange = 3, mHasFramebufferFetch = 0,
         mColorResolveAttachmentMask = 1, mColorUnresolveAttachmentMask = 0,
         mAttachmentFormats = [7, 0, 5, 0, 0, 0, 0, 0, 0x80]\<rparr> 2 = Inr True
   \<and> isColorAttachmentEnabled
        \<lparr>mLogSamples = 2, mColorAttachmentRange = 3, mHasFramebufferFetch = 0,
         mColorResolveAttachmentMask = 1, mColorUnresolveAttachmentMask = 0,
         mAttachmentFormats = [7, 0, 5, 0, 0, 0, 0, 0, 0x80]\<rparr> 0 = Inr True
   \<and> isColorAttachmentEnabled
        \<lparr>mLogSamples = 2, mColorAttachmentRange = 3, mHasFramebufferFetch = 0,
         mColorResolveAttachmentMask = 1, mColorUnresolveAttachmentMask = 0,
         mAttachmentFormats = [7, 0, 5, 0, 0, 0, 0, 0, 0x80]\<rparr> 1 = Inr False"
proof -
  let ?d = "\<lparr>mLogSamples = 2, mColorAttachmentRange = 1, mHasFramebufferFetch = 0,
       mColorResolveAttachmentMask = 1, mColorUnresolveAttachmentMask = 0,
       mAttachmentFormats = [7, 0, 0, 0, 0, 0, 0, 0, 0x80]\<rparr>"
  have c: "\<And>k::nat. (k < 8) = (k = 0 \<or> k = 1 \<or> k = 2 \<or> k = 3 \<or> k = 4 \<or> k = 5 \<or> k = 6 \<or> k = 7)"
    by arith
  have inv: "RenderPassDesc_inv ?d"
    unfolding RenderPassDesc_inv_def RenderPassDesc_sized_def colorAttachmentRange_def
      kMaxFramebufferNonResolveAttachments_def IMPLEMENTATION_MAX_DRAW_BUFFERS_def c
    by (auto simp: kDepthStencilFormatStorageMask_def)
  have b: "(2 :: nat) < IMPLEMENTATION_MAX_DRAW_BUFFERS \<and> (0 :: nat) < IMPLEMENTATION_MAX_DRAW_BUFFERS
           \<and> (1 :: nat) < IMPLEMENTATION_MAX_DRAW_BUFFERS"
    by (simp add: IMPLEMENTATION_MAX_DRAW_BUFFERS_def)
  have e0: "isColorAttachmentEnabled ?d 0 = Inr True"
    by (simp add: isColorAttachmentEnabled_def RenderPassDesc_index_def
          depthStencilAttachmentIndex_def colorAttachmentRange_def FormatID_NONE_def
          IMPLEMENTATION_MAX_DRAW_BUFFERS_def)
  have e1: "isColorAttachmentEnabled ?d 1 = Inr False"
    by (simp add: isColorAttachmentEnabled_def RenderPassDesc_index_def
          depthStencilAttachmentIndex_def colorAttachmentRange_def FormatID_NONE_def
          IMPLEMENTATION_MAX_DRAW_BUFFERS_def)
  have r: "colorAttachmentRange ?d = 1" by (simp add: colorAttachmentRange_def)
  obtain d' where p: "packColorAttachment 2 5 ?d = Inr d'"
    and v: "d' = ?d\<lparr>mAttachmentFormats := (mAttachmentFormats ?d)[2 := of_nat 5],
                  mColorAttachmentRange := of_nat (max (colorAttachmentRange ?d) (2 + 1))\<rparr>"
    and t: "isColorAttachmentEnabled d' 2 = Inr True"
    and o: "\<forall>j < IMPLEMENTATION_MAX_DRAW_BUFFERS. j \<noteq> 2 \<longrightarrow>
              isColorAttachmentEnabled d' j = isColorAttachmentEnabled ?d j"
    using packColorAttachment_enables_only_its_index [of ?d 2 5] inv b by auto
  have v': "d' = \<lparr>mLogSamples = 2, mColorAttachmentRange = 3, mHasFramebufferFetch = 0,
            mColorResolveAttachmentMask = 1, mColorUnresolveAttachmentMask = 0,
            mAttachmentFormats = [7, 0, 5, 0, 0, 0, 0, 0, 0x80]\<rparr>"
    using v r by simp
  have o0: "isColorAttachmentEnabled d' 0 = Inr True" using o b e0 by simp
  have o1: "isColorAttachmentEnabled d' 1 = Inr False" using o b e1 by simp
  show ?thesis
    using inv p t o0 o1 unfolding v' by simp
qed

text \<open>
  C6 as stated fails in its last part, that the mutator changes only the bits for index
  \<open>i\<close>: on the default description \<^verbatim>\<open>packColorAttachment(2, 5)\<close> also changes the
  color attachment range, from 0 to 3.
\<close>

theorem packColorAttachment_range_counterexample:
  "packColorAttachment 2 5 RenderPassDesc_default
     = Inr \<lparr>mLogSamples = 0, mColorAttachmentRange = 3, mHasFramebufferFetch = 0,
            mColorResolveAttachmentMask = 0, mColorUnresolveAttachmentMask = 0,
            mAttachmentFormats = [0, 0, 5, 0, 0, 0, 0, 0, 0]\<rparr>
   \<and> mColorAttachmentRange RenderPassDesc_default = 0
   \<and> colorAttachmentRange RenderPassDesc_default = 0
   \<and> colorAttachmentRange
        \<lparr>mLogSamples = 0, mColorAttachmentRange = 3, mHasFramebufferFetch = 0,
         mColorResolveAttachmentMask = 0, mColorUnresolveAttachmentMask = 0,
         mAttachmentFormats = [0, 0, 5, 0, 0, 0, 0, 0, 0]\<rparr> = 3"
proof -
  have s5: "(SetBitField 5 :: 8 word option) = Some 5"
    by (simp add: SetBitField_def)
  have s3: "(SetBitField 3 :: 4 word option) = Some 3"
    by (simp add: SetBitField_def)
  have d: "RenderPassDesc_default =
      \<lparr>mLogSamples = 0, mColorAttachmentRange = 0, mHasFramebufferFetch = 0,
       mColorResolveAttachmentMask = 0, mColorUnresolveAttachmentMask = 0,
       mAttachmentFormats = [0, 0, 0, 0, 0, 0, 0, 0, 0]\<rparr>"
    by (simp add: RenderPassDesc_default_def kMaxFramebufferNonResolveAttachments_def
          IMPLEMENTATION_MAX_DRAW_BUFFERS_def numeral_eq_Suc)
  show ?thesis
    unfolding d by (simp add: packColorAttachment_def s5 s3 colorAttachmentRange_def)
qed

text \<open>
  C7. From the default description, \<^verbatim>\<open>packColorAttachment(0, a)\<close>,
  \<^verbatim>\<open>packColorAttachment(2, b)\<close> and \<^verbatim>\<open>packColorAttachmentGap(1)\<close>, for any two formats
  \<open>a\<close> and \<open>b\<close>, all succeed, and then \<^verbatim>\<open>colorAttachmentRange()\<close> is 3,
  \<^verbatim>\<open>isColorAttachmentEnabled(1)\<close> is false and \<^verbatim>\<open>attachmentCount()\<close> is 2.
\<close>

theorem pack_0_2_gap_1_scenario:
  "0 < a \<and> a < 256 \<and> 0 < b \<and> b < 256 \<longrightarrow>
     (\<exists>d1 d2 d3.
        packColorAttachment 0 a RenderPassDesc_default = Inr d1
        \<and> packColorAttachment 2 b d1 = Inr d2
        \<and> packColorAttachmentGap 1 d2 = Inr d3
        \<and> colorAttachmentRange d3 = 3
        \<and> isColorAttachmentEnabled d3 1 = Inr False
        \<and> attachmentCount d3 = Inr 2)"
proof (intro impI, elim conjE)
  assume a0: "0 < a" and a: "a < 256" and b0: "0 < b" and b: "b < 256"
  have na: "(of_nat a :: 8 word) \<noteq> 0"
    using format_byte_nonzero [OF a0 a] by (simp add: FormatID_NONE_def)
  have nb: "(of_nat b :: 8 word) \<noteq> 0"
    using format_byte_nonzero [OF b0 b] by (simp add: FormatID_NONE_def)
  let ?d1 = "RenderPassDesc_default\<lparr>mAttachmentFormats := [of_nat a, 0, 0, 0, 0, 0, 0, 0, 0],
                 mColorAttachmentRange := 1\<rparr>"
  let ?d2 = "RenderPassDesc_default\<lparr>mAttachmentFormats := [of_nat a, 0, of_nat b, 0, 0, 0, 0, 0, 0],
                 mColorAttachmentRange := 3\<rparr>"
  have sa: "(SetBitField a :: 8 word option) = Some (of_nat a)"
    using a by (simp add: SetBitField_Some)
  have sb: "(SetBitField b :: 8 word option) = Some (of_nat b)"
    using b by (simp add: SetBitField_Some)
  have s1: "(SetBitField (Suc 0) :: 4 word option) = Some 1"
    by (simp add: SetBitField_def)
  have s3: "(SetBitField 3 :: 4 word option) = Some 3"
    by (simp add: SetBitField_def)
  have p1: "packColorAttachment 0 a RenderPassDesc_default = Inr ?d1"
    by (simp add: packColorAttachment_def RenderPassDesc_default_def sa s1
          kMaxFramebufferNonResolveAttachments_def IMPLEMENTATION_MAX_DRAW_BUFFERS_def
          numeral_eq_Suc)
  have p2: "packColorAttachment 2 b ?d1 = Inr ?d2"
    by (simp add: packColorAttachment_def RenderPassDesc_default_def sb s3)
  have p3: "packColorAttachmentGap 1 ?d2 = Inr ?d2"
    by (simp add: packColorAttachmentGap_def RenderPassDesc_default_def FormatID_NONE_def)
  have r: "colorAttachmentRange ?d2 = 3"
    by (simp add: colorAttachmentRange_def)
  have e0: "isColorAttachmentEnabled ?d2 0 = Inr True"
    using na
    by (simp add: isColorAttachmentEnabled_def RenderPassDesc_index_def
          depthStencilAttachmentIndex_def r FormatID_NONE_def)
  have e1: "isColorAttachmentEnabled ?d2 1 = Inr False"
    by (simp add: isColorAttachmentEnabled_def RenderPassDesc_index_def
          depthStencilAttachmentIndex_def r FormatID_NONE_def
          IMPLEMENTATION_MAX_DRAW_BUFFERS_def)
  have e2: "isColorAttachmentEnabled ?d2 2 = Inr True"
    using nb
    by (simp add: isColorAttachmentEnabled_def RenderPassDesc_index_def
          depthStencilAttachmentIndex_def r FormatID_NONE_def
          IMPLEMENTATION_MAX_DRAW_BUFFERS_def)
  have ds: "hasDepthStencilAttachment ?d2 = Inr False"
    by (simp add: hasDepthStencilAttachment_def RenderPassDesc_index_def
          depthStencilAttachmentIndex_def r FormatID_NONE_def
          IMPLEMENTATION_MAX_DRAW_BUFFERS_def)
  have dr: "\<not> hasDepthStencilResolveAttachment ?d2"
    by (simp add: hasDepthStencilResolveAttachment_def)
  have rs: "filter (bit (mColorResolveAttachmentMask ?d2)) [0..<IMPLEMENTATION_MAX_DRAW_BUFFERS] = []"
    by (simp add: RenderPassDesc_default_def)
  have up: "[0..<3] = [0, 1, 2]" by (simp add: upt_rec)
  have c: "attachmentCount ?d2 = Inr 2"
    unfolding attachmentCount_def r up
    using e0 e1 e2 ds dr rs by simp
  show "\<exists>d1 d2 d3.
        packColorAttachment 0 a RenderPassDesc_default = Inr d1
        \<and> packColorAttachment 2 b d1 = Inr d2
        \<and> packColorAttachmentGap 1 d2 = Inr d3
        \<and> colorAttachmentRange d3 = 3
        \<and> isColorAttachmentEnabled d3 1 = Inr False
        \<and> attachmentCount d3 = Inr 2"
    using p1 p2 p3 r e1 c by blast
qed

theorem pack_0_2_gap_1_scenario_witness:
  "(\<exists>d1 d2 d3.
        packColorAttachment 0 5 RenderPassDesc_default = Inr d1
        \<and> packColorAttachment 2 9 d1 = Inr d2
        \<and> packColorAttachmentGap 1 d2 = Inr d3
        \<and> colorAttachmentRange d3 = 3
        \<and> isColorAttachmentEnabled d3 1 = Inr False
        \<and> attachmentCount d3 = Inr 2)"
  using pack_0_2_gap_1_scenario [of 5 9] by simp

section \<open>Properties of the packed scissor\<close>

text \<open>
  The sentinel is 65535, the largest value of the \<^verbatim>\<open>x\<close> field; every value of the field
  is at most the sentinel; and \<^verbatim>\<open>SetBitField\<close> stores a coordinate in the field without
  an assertion failure exactly when it is at most 65535, the coordinate 65535 itself
  becoming the sentinel.
\<close>

lemma kDynamicScissorSentinel_max:
  "kDynamicScissorSentinel = 65535 \<and> (\<forall>w :: 16 word. uint w \<le> kDynamicScissorSentinel)"
proof -
  have m: "uint (- 1 :: 16 word) = 65535"
    by (simp add: unsigned_minus_1_eq_mask mask_eq_exp_minus_1)
  have "\<And>w :: 16 word. uint w \<le> 65535"
    using uint_bounded [where 'a = 16] by (simp add: zle_diff1_eq [symmetric])
  then show ?thesis by (simp add: kDynamicScissorSentinel_def m)
qed

lemma SetBitField_scissor_x:
  "((SetBitField n :: 16 word option) \<noteq> None) = (n \<le> 65535)
   \<and> (SetBitField 65535 :: 16 word option) = Some (- 1)"
proof -
  have "(unat (of_nat n :: 16 word) = n) = (n \<le> 65535)"
    by (auto simp: unat_of_nat)
  then show ?thesis by (simp add: SetBitField_def Let_def)
qed

end
